theory Spec2Isabelle
  imports Complex_Main
begin

section \<open>Media toolkit: job and file lifecycle\<close>

text \<open>
  A shallow embedding of the backend services of the media toolkit: the filename
  allocator \<open>getUniqueFilename\<close>, the two variants of \<open>safeUnlink\<close>, the expiry sweep
  \<open>cleanupExpiredFiles\<close>, \<open>createArchive\<close>, the ffmpeg command built by \<open>processVideo\<close>
  and the batch orchestrator \<open>processImages\<close> with \<open>optimizeSVGs\<close> and
  \<open>processWithImageMagick\<close>.

  The uploads directory is a finite association list from file names to what is stored
  under them. External tools (sharp, SVGO, ImageMagick, the operating system's file
  locks) are parameters of the model: functions that say, for each call, whether the
  tool throws (and with which message) or what it produces.
\<close>

subsection \<open>JavaScript values used by the services\<close>

text \<open>Node's system errors carry a \<open>code\<close> and a \<open>message\<close>.\<close>

datatype errcode = ENOENT | EBUSY | EPERM | ECODE string

type_synonym jserror = "errcode \<times> string"

definition code :: "jserror \<Rightarrow> errcode" where
  "code e = fst e"

definition message :: "jserror \<Rightarrow> string" where
  "message e = snd e"

text \<open>
  \<open>decimal n\<close> is what a template literal prints for a non-negative integer counter
  (\<open>`${counter}`\<close>).
\<close>

definition digit :: "nat \<Rightarrow> char" where
  "digit d = ''0123456789'' ! d"

fun decimal :: "nat \<Rightarrow> string" where
  "decimal n = (if n < 10 then [digit n] else decimal (n div 10) @ [digit (n mod 10)])"

declare decimal.simps [simp del]

subsection \<open>Filename allocator\<close>

text \<open>
  \<open>getUniqueFilename(dir, baseName, format)\<close>, the same function in videoProcessor.js,
  imageProcessor.js, svgProcessor.js and imageMagickProcessor.js. The directory is the
  list of the names present in it; \<open>access dir p\<close> is \<open>fs.access(path.join(dir, p))\<close>
  succeeding. The \<open>while (true)\<close> loop carries \<open>filename\<close> and \<open>counter\<close>.
\<close>

definition access :: "string list \<Rightarrow> string \<Rightarrow> bool" where
  "access dir p = (p \<in> set dir)"

definition suffixed :: "string \<Rightarrow> nat \<Rightarrow> string \<Rightarrow> string" where
  "suffixed baseName counter format = baseName @ ''_'' @ decimal counter @ ''.'' @ format"

lemma digit_inj: "a < 10 \<Longrightarrow> b < 10 \<Longrightarrow> digit a = digit b \<Longrightarrow> a = b"
proof -
  assume a: "a < 10" and b: "b < 10" and e: "digit a = digit b"
  have d: "distinct ''0123456789''" by simp
  have l: "length ''0123456789'' = 10" by simp
  from e show "a = b" unfolding digit_def
    using nth_eq_iff_index_eq[OF d, of a b] a b l by simp
qed

lemma decimal_ne: "decimal n \<noteq> []"
  by (subst decimal.simps) simp

lemma decimal_inj: "decimal n = decimal m \<Longrightarrow> n = m"
proof (induction n arbitrary: m rule: decimal.induct)
  case (1 n)
  show ?case
  proof (cases "n < 10")
    case True
    show ?thesis
    proof (cases "m < 10")
      case m: True
      from "1.prems" True m have "digit n = digit m"
        by (simp add: decimal.simps[of n] decimal.simps[of m])
      with True m show ?thesis by (intro digit_inj)
    next
      case False
      from "1.prems" True False have "[digit n] = decimal (m div 10) @ [digit (m mod 10)]"
        by (simp add: decimal.simps[of n] decimal.simps[of m])
      then show ?thesis using decimal_ne[of "m div 10"] by simp
    qed
  next
    case False
    show ?thesis
    proof (cases "m < 10")
      case True
      from "1.prems" True False have "decimal (n div 10) @ [digit (n mod 10)] = [digit m]"
        by (simp add: decimal.simps[of n] decimal.simps[of m])
      then show ?thesis using decimal_ne[of "n div 10"] by simp
    next
      case m: False
      from "1.prems" m False
      have "decimal (n div 10) @ [digit (n mod 10)] = decimal (m div 10) @ [digit (m mod 10)]"
        by (simp add: decimal.simps[of n] decimal.simps[of m])
      then have a: "decimal (n div 10) = decimal (m div 10)"
        and b: "digit (n mod 10) = digit (m mod 10)"
        by simp_all
      from "1.IH"[OF False a] have "n div 10 = m div 10" .
      moreover from b have "n mod 10 = m mod 10" by (intro digit_inj) simp_all
      ultimately show ?thesis by (metis div_mult_mod_eq)
    qed
  qed
qed

lemma suffixed_inj: "suffixed b k f = suffixed b j f \<Longrightarrow> k = j"
  unfolding suffixed_def by (simp add: decimal_inj)

lemma finite_suffixed: "finite {k. suffixed b k f \<in> set dir}"
proof -
  have "inj (\<lambda>k. suffixed b k f)" by (rule injI) (rule suffixed_inj)
  then have "finite ((\<lambda>k. suffixed b k f) -` set dir)" by (intro finite_vimageI) simp_all
  then show ?thesis by (simp add: vimage_def)
qed

text \<open>
  The loop ends because the names \<open>baseName_k.format\<close> are pairwise different and the
  directory is finite: each round either leaves the loop or uses up one of the names of
  the directory that are still ahead of the counter.
\<close>

function getUniqueFilename_loop ::
  "string list \<Rightarrow> string \<Rightarrow> string \<Rightarrow> string \<Rightarrow> nat \<Rightarrow> string" where
  "getUniqueFilename_loop dir baseName format filename counter =
     (if access dir filename
      then getUniqueFilename_loop dir baseName format
             (baseName @ ''_'' @ decimal counter @ ''.'' @ format) (counter + 1)
      else filename)"
  by pat_completeness auto
termination
proof (relation "measure (\<lambda>(dir, b, f, fn, c).
          card {k. c \<le> k \<and> suffixed b k f \<in> set dir} + (if fn \<in> set dir then 1 else 0))")
  show "wf (measure (\<lambda>(dir, b, f, fn, c).
          card {k. c \<le> k \<and> suffixed b k f \<in> set dir} + (if fn \<in> set dir then 1 else 0)))"
    by simp
next
  fix dir :: "string list" and baseName format filename :: string and counter :: nat
  assume a: "access dir filename"
  let ?A = "{k. counter \<le> k \<and> suffixed baseName k format \<in> set dir}"
  let ?B = "{k. counter + 1 \<le> k \<and> suffixed baseName k format \<in> set dir}"
  have fin: "finite ?A"
    by (rule finite_subset[OF _ finite_suffixed[of baseName format dir]]) auto
  have le: "card ?B + (if suffixed baseName counter format \<in> set dir then 1 else 0) \<le> card ?A"
  proof (cases "suffixed baseName counter format \<in> set dir")
    case True
    then have "?A = insert counter ?B" by (auto simp: le_Suc_eq Suc_le_eq)
    moreover have "counter \<notin> ?B" by simp
    moreover have "finite ?B" by (rule finite_subset[OF _ fin]) auto
    ultimately show ?thesis using True by simp
  next
    case False
    have "?B \<subseteq> ?A" by auto
    then show ?thesis using False card_mono[OF fin] by simp
  qed
  from a le
  show "((dir, baseName, format, baseName @ ''_'' @ decimal counter @ ''.'' @ format, counter + 1),
         (dir, baseName, format, filename, counter)) \<in> measure (\<lambda>(dir, b, f, fn, c).
          card {k. c \<le> k \<and> suffixed b k f \<in> set dir} + (if fn \<in> set dir then 1 else 0))"
    by (simp add: access_def suffixed_def)
qed

declare getUniqueFilename_loop.simps [simp del]

definition getUniqueFilename :: "string list \<Rightarrow> string \<Rightarrow> string \<Rightarrow> string" where
  "getUniqueFilename dir baseName format =
     getUniqueFilename_loop dir baseName format (baseName @ ''.'' @ format) 1"


lemma getUniqueFilename_loop_fresh: "getUniqueFilename_loop dir b f fn c \<notin> set dir"
  by (induction dir b f fn c rule: getUniqueFilename_loop.induct)
     (subst getUniqueFilename_loop.simps, simp add: access_def)

lemma getUniqueFilename_fresh: "getUniqueFilename dir b f \<notin> set dir"
  unfolding getUniqueFilename_def by (rule getUniqueFilename_loop_fresh)




subsection \<open>The ffmpeg command of processVideo\<close>

text \<open>
  The options of \<open>processVideo\<close> after destructuring with defaults. \<open>width\<close> and
  \<open>height\<close> are \<open>null\<close> or a number; \<open>resize\<close> is a percentage.
\<close>

record videoOptions =
  format :: string
  resize :: nat
  bitrate :: string
  preset :: string
  audio :: bool
  resizeMode :: string
  width :: "nat option"
  height :: "nat option"
  crop :: string

text \<open>
  The calls made on the fluent-ffmpeg command object, in order. \<open>OutputOptionsInherited o k\<close>
  is the call \<open>outputOptions([o, v])\<close> where \<open>v\<close> is not a string but the member \<open>k\<close> that
  an object literal inherits from \<open>Object.prototype\<close>.
\<close>

datatype ffcall =
  OutputOptions "string list" | OutputOptionsInherited string string | NoAudio | Output string

text \<open>JavaScript truthiness of a number or \<open>null\<close>, and its rendering in a template.\<close>

definition truthy :: "nat option \<Rightarrow> bool" where
  "truthy w = (case w of None \<Rightarrow> False | Some n \<Rightarrow> n \<noteq> 0)"

definition template :: "nat option \<Rightarrow> string" where
  "template w = (case w of None \<Rightarrow> ''null'' | Some n \<Rightarrow> decimal n)"

text \<open>
  \<open>crf\<close> is the threshold chain applied to \<open>bitrateNum = parseInt(bitrate)\<close>; \<open>None\<close> is
  \<open>NaN\<close>, for which every comparison is false.
\<close>

definition crf :: "int option \<Rightarrow> nat" where
  "crf bitrateNum =
     (case bitrateNum of
        None \<Rightarrow> 32
      | Some b \<Rightarrow>
          if b \<ge> 5 then 18
          else if b \<ge> 3 then 20
          else if b \<ge> 2 then 23
          else if b \<ge> 1 then 28
          else 32)"

text \<open>
  \<open>presetMap[preset] || 'medium'\<close>. The object literal has the own keys \<open>web\<close>, \<open>quality\<close>
  and \<open>fast\<close>; any other key is looked up on \<open>Object.prototype\<close>, whose members are
  functions (for \<open>__proto__\<close> the prototype object itself), all of them truthy, so for
  these keys the value is the inherited member and not \<open>'medium'\<close>.
\<close>

definition objectPrototypeKeys :: "string list" where
  "objectPrototypeKeys =
     [''constructor'', ''__defineGetter__'', ''__defineSetter__'', ''hasOwnProperty'',
      ''__lookupGetter__'', ''__lookupSetter__'', ''isPrototypeOf'', ''propertyIsEnumerable'',
      ''toString'', ''valueOf'', ''__proto__'', ''toLocaleString'']"

datatype presetValue = PresetName string | Inherited string

definition presetMap :: "string \<Rightarrow> presetValue" where
  "presetMap p =
     (if p = ''web'' then PresetName ''medium''
      else if p = ''quality'' then PresetName ''slow''
      else if p = ''fast'' then PresetName ''veryfast''
      else if p \<in> set objectPrototypeKeys then Inherited p
      else PresetName ''medium'')"

definition x264 :: "string \<Rightarrow> bool" where
  "x264 fmt = (fmt = ''mp4'' \<or> fmt = ''mov'' \<or> fmt = ''mkv'')"

definition gifScale :: "(nat \<Rightarrow> string) \<Rightarrow> videoOptions \<Rightarrow> string" where
  "gifScale scaleStr opts =
     (if resizeMode opts = ''absolute'' \<and> truthy (width opts) then template (width opts) @ '':-1''
      else if resize opts \<noteq> 100 then ''iw*'' @ scaleStr (resize opts) @ '':-1''
      else ''480:-1'')"

definition scaleFilter :: "videoOptions \<Rightarrow> string" where
  "scaleFilter opts =
     (if truthy (width opts) \<and> truthy (height opts) then
        (if crop opts = ''cover'' then
           ''scale='' @ template (width opts) @ '':'' @ template (height opts) @
           '':force_original_aspect_ratio=increase,crop='' @
           template (width opts) @ '':'' @ template (height opts)
         else
           ''scale='' @ template (width opts) @ '':'' @ template (height opts) @
           '':force_original_aspect_ratio=decrease'')
      else if truthy (width opts) then ''scale='' @ template (width opts) @ '':-2''
      else ''scale=-2:'' @ template (height opts))"

text \<open>
  The command built by \<open>processVideo\<close> between \<open>ffmpeg(inputPath)\<close> and \<open>.run()\<close>.
  \<open>parseInt\<close> is what reads the bitrate hint and \<open>scaleStr r\<close> is the rendering of the
  number \<open>r / 100\<close>; both are parameters of the command. The builtin \<open>parseInt\<close> itself is
  defined further down, where the command is taken at it.
\<close>

definition processVideo_command ::
  "(string \<Rightarrow> int option) \<Rightarrow> (nat \<Rightarrow> string) \<Rightarrow> videoOptions \<Rightarrow> string \<Rightarrow> ffcall list" where
  "processVideo_command parseInt scaleStr opts normalizedOutputPath =
     (if format opts = ''gif'' then
        [OutputOptions [''-vf'', ''fps=10,scale='' @ gifScale scaleStr opts @
            '':flags=lanczos,split[s0][s1];[s0]palettegen[p];[s1][p]paletteuse''],
         NoAudio]
      else
        (if x264 (format opts) then [OutputOptions [''-c:v'', ''libx264'']]
         else if format opts = ''webm'' then [OutputOptions [''-c:v'', ''libvpx-vp9'']]
         else []) @
        (if x264 (format opts) then
           [(case presetMap (preset opts) of
               PresetName v \<Rightarrow> OutputOptions [''-preset'', v]
             | Inherited k \<Rightarrow> OutputOptionsInherited ''-preset'' k),
            OutputOptions [''-crf'', decimal (crf (parseInt (bitrate opts)))]]
         else []) @
        (if format opts = ''mp4'' \<or> format opts = ''mov'' then
           [OutputOptions [''-movflags'', ''+faststart'']]
         else []) @
        (if resizeMode opts = ''absolute'' \<and> (truthy (width opts) \<or> truthy (height opts)) then
           [OutputOptions [''-vf'', scaleFilter opts]]
         else if resize opts \<noteq> 100 then
           [OutputOptions [''-vf'', ''scale=iw*'' @ scaleStr (resize opts) @ '':ih*'' @
              scaleStr (resize opts)]]
         else []) @
        (if audio opts then [OutputOptions [''-c:a'', ''aac'', ''-b:a'', ''128k'']]
         else [NoAudio])) @
     [OutputOptions [''-y''], Output normalizedOutputPath]"

text \<open>The audio options of a command: what it passes for the audio track.\<close>

fun audioOptions :: "ffcall \<Rightarrow> bool" where
  "audioOptions (OutputOptions os) = (''-c:a'' \<in> set os \<or> ''-b:a'' \<in> set os)"
| "audioOptions (OutputOptionsInherited opt k) = (opt = ''-c:a'' \<or> opt = ''-b:a'')"
| "audioOptions NoAudio = False"
| "audioOptions (Output p) = False"

text \<open>
  C7. For the format \<open>gif\<close> the command disables the audio track and passes no audio
  codec options, whatever the \<open>audio\<close> flag of the options is: the command is the same
  for every value of the flag.
\<close>

theorem gif_has_no_audio:
  assumes "format opts = ''gif''"
  shows "NoAudio \<in> set (processVideo_command parseInt scaleStr opts out) \<and>
         list_ex audioOptions (processVideo_command parseInt scaleStr opts out) = False \<and>
         processVideo_command parseInt scaleStr (opts\<lparr>audio := a\<rparr>) out =
           processVideo_command parseInt scaleStr opts out"
  using assms by (simp add: processVideo_command_def gifScale_def)

theorem gif_has_no_audio_witness:
  "processVideo_command (\<lambda>s. Some 2) (\<lambda>r. ''1'')
     \<lparr>format = ''gif'', resize = 100, bitrate = ''2M'', preset = ''web'', audio = True,
      resizeMode = ''percent'', width = None, height = None, crop = ''none''\<rparr> ''out.gif'' =
   [OutputOptions [''-vf'',
      ''fps=10,scale=480:-1:flags=lanczos,split[s0][s1];[s0]palettegen[p];[s1][p]paletteuse''],
    NoAudio, OutputOptions [''-y''], Output ''out.gif''] \<and>
   NoAudio \<in> set (processVideo_command (\<lambda>s. Some 2) (\<lambda>r. ''1'')
     \<lparr>format = ''gif'', resize = 100, bitrate = ''2M'', preset = ''web'', audio = True,
      resizeMode = ''percent'', width = None, height = None, crop = ''none''\<rparr> ''out.gif'')"
  using gif_has_no_audio[of "\<lparr>format = ''gif'', resize = 100, bitrate = ''2M'',
      preset = ''web'', audio = True, resizeMode = ''percent'', width = None, height = None,
      crop = ''none''\<rparr>" "\<lambda>s. Some 2" "\<lambda>r. ''1''" "''out.gif''" True]
  by (simp add: processVideo_command_def gifScale_def)

subsection \<open>The bitrate hint and the CRF\<close>

text \<open>
  \<open>parseInt(string)\<close> of JavaScript, called without a radix: leading white space is
  skipped, a sign is read, \<open>0x\<close> or \<open>0X\<close> selects radix 16, and the longest prefix of
  digits of the radix is the number; with no digit the result is \<open>NaN\<close> (\<open>None\<close>).
  Strings are taken as ASCII, and the result as the integer itself (the rounding of a
  long digit string to a double is monotonic and fixes the integers up to \<open>2^53\<close>, so it
  does not change the outcome of the comparisons of \<open>crf\<close>).
\<close>

definition isWhiteSpace :: "char \<Rightarrow> bool" where
  "isWhiteSpace c = (c \<in> set [CHR 0x09, CHR 0x0A, CHR 0x0B, CHR 0x0C, CHR 0x0D, CHR 0x20])"

definition digitValue :: "char \<Rightarrow> nat" where
  "digitValue c =
     (let n = of_char c :: nat in
      if 48 \<le> n \<and> n \<le> 57 then n - 48
      else if 97 \<le> n \<and> n \<le> 122 then n - 87
      else if 65 \<le> n \<and> n \<le> 90 then n - 55
      else 36)"

definition parseInt :: "string \<Rightarrow> int option" where
  "parseInt string =
     (let S = dropWhile isWhiteSpace string;
          negative = (take 1 S = ''-'');
          S1 = (if take 1 S = ''-'' \<or> take 1 S = ''+'' then drop 1 S else S);
          hex = (take 2 S1 = ''0x'' \<or> take 2 S1 = ''0X'');
          S2 = (if hex then drop 2 S1 else S1);
          R = (if hex then 16 else 10);
          Z = takeWhile (\<lambda>c. digitValue c < R) S2
      in if Z = [] then None
         else Some ((if negative then - 1 else 1) *
                    int (foldl (\<lambda>a c. a * R + digitValue c) 0 Z)))"

text \<open>
  What a hint asks for, read as ffmpeg reads a bitrate: a decimal number and an optional
  unit, \<open>k\<close> for a thousand and \<open>M\<close> for a million bits per second. This is the
  specification's reading of the hint; the code never computes it.
\<close>

definition hintNumber :: "string \<Rightarrow> nat" where
  "hintNumber hint = foldl (\<lambda>a c. a * 10 + digitValue c) 0 (takeWhile (\<lambda>c. digitValue c < 10) hint)"

definition hintUnit :: "string \<Rightarrow> string" where
  "hintUnit hint = dropWhile (\<lambda>c. digitValue c < 10) hint"

definition unitFactor :: "string \<Rightarrow> nat option" where
  "unitFactor u =
     (if u = [] then Some 1
      else if u = ''k'' then Some 1000
      else if u = ''M'' then Some 1000000
      else None)"

definition hintBitrate :: "string \<Rightarrow> nat option" where
  "hintBitrate hint =
     (if takeWhile (\<lambda>c. digitValue c < 10) hint = [] then None
      else map_option (\<lambda>f. hintNumber hint * f) (unitFactor (hintUnit hint)))"


lemma digit_chars:
  "digitValue c < 10 \<Longrightarrow>
   \<not> isWhiteSpace c \<and> c \<noteq> CHR ''-'' \<and> c \<noteq> CHR ''+'' \<and> c \<noteq> CHR ''x'' \<and> c \<noteq> CHR ''X''"
  by (auto simp: isWhiteSpace_def digitValue_def Let_def split: if_splits)

lemma parseInt_hint:
  assumes "hintBitrate h = Some b"
  shows "parseInt h = Some (int (hintNumber h))"
proof -
  let ?P = "\<lambda>c. digitValue c < 10"
  from assms have z: "takeWhile ?P h \<noteq> []"
    by (auto simp: hintBitrate_def split: if_splits)
  from assms have u: "hintUnit h = [] \<or> hintUnit h = ''k'' \<or> hintUnit h = ''M''"
    by (auto simp: hintBitrate_def unitFactor_def split: if_splits)
  from z obtain x xs where zx: "takeWhile ?P h = x # xs" by (cases "takeWhile ?P h") auto
  have "x \<in> set (takeWhile ?P h)" using zx by simp
  then have px: "?P x" by (rule set_takeWhileD[THEN conjunct2])
  define U where "U = hintUnit h"
  have h: "h = x # xs @ U"
    using takeWhile_dropWhile_id[of ?P h] zx by (simp add: hintUnit_def U_def)
  from u have u': "U = [] \<or> U = ''k'' \<or> U = ''M''" by (simp add: U_def)
  have nohex: "take 2 h \<noteq> ''0x'' \<and> take 2 h \<noteq> ''0X''"
  proof (cases xs)
    case Nil
    with u' show ?thesis unfolding h by auto
  next
    case (Cons y ys)
    with zx have "y \<in> set (takeWhile ?P h)" by simp
    then have "?P y" by (rule set_takeWhileD[THEN conjunct2])
    with digit_chars[of y] have "y \<noteq> CHR ''x'' \<and> y \<noteq> CHR ''X''" by simp
    with Cons show ?thesis unfolding h by auto
  qed
  from px digit_chars[of x]
  have ws: "dropWhile isWhiteSpace h = h" unfolding h by simp
  from px digit_chars[of x]
  have sg: "take 1 h \<noteq> ''-'' \<and> take 1 h \<noteq> ''+''" unfolding h by auto
  from ws sg nohex z show ?thesis
    by (simp add: parseInt_def hintNumber_def Let_def)
qed

lemma hint_same_unit:
  assumes "hintBitrate h1 = Some b1" "hintBitrate h2 = Some b2" "hintUnit h1 = hintUnit h2"
    "b1 \<le> b2"
  shows "hintNumber h1 \<le> hintNumber h2"
proof -
  from assms(1) obtain f where f: "unitFactor (hintUnit h1) = Some f" "b1 = hintNumber h1 * f"
    by (auto simp: hintBitrate_def split: if_splits)
  from assms(2,3) f have "b2 = hintNumber h2 * f"
    by (auto simp: hintBitrate_def split: if_splits)
  moreover from f(1) have "0 < f" by (auto simp: unitFactor_def split: if_splits)
  ultimately show ?thesis using f(2) assms(4) by simp
qed

lemma crf_antimono: "n1 \<le> n2 \<Longrightarrow> crf (Some n2) \<le> crf (Some n1)"
  by (simp add: crf_def)

text \<open>
  C8 (amended). The quality-control value is monotonic in the integer that \<open>parseInt\<close> reads
  from the bitrate hint: a larger integer never gives a larger CRF, and a hint with no
  leading integer (\<open>NaN\<close>) gives the largest CRF. The unit of the hint is not read. So for
  two hints written in the same unit, the higher requested bitrate gets the lower or equal CRF.
  For the x264 formats the command passes exactly this value as \<open>-crf\<close>.
\<close>

theorem crf_monotonic:
  "(parseInt h1 = Some n1 \<and> parseInt h2 = Some n2 \<and> n1 \<le> n2 \<longrightarrow>
      crf (parseInt h2) \<le> crf (parseInt h1)) \<and>
   crf (parseInt h) \<le> crf None \<and>
   (hintBitrate h1 = Some b1 \<and> hintBitrate h2 = Some b2 \<and> hintUnit h1 = hintUnit h2 \<and> b1 \<le> b2 \<longrightarrow>
      crf (parseInt h2) \<le> crf (parseInt h1)) \<and>
   (x264 (format opts) \<longrightarrow>
      OutputOptions [''-crf'', decimal (crf (parseInt (bitrate opts)))]
        \<in> set (processVideo_command parseInt scaleStr opts out))"
proof (intro conjI impI)
  assume "parseInt h1 = Some n1 \<and> parseInt h2 = Some n2 \<and> n1 \<le> n2"
  then show "crf (parseInt h2) \<le> crf (parseInt h1)" by (simp add: crf_antimono)
next
  show "crf (parseInt h) \<le> crf None" by (cases "parseInt h") (simp_all add: crf_def)
next
  assume a: "hintBitrate h1 = Some b1 \<and> hintBitrate h2 = Some b2 \<and> hintUnit h1 = hintUnit h2 \<and> b1 \<le> b2"
  then have "hintNumber h1 \<le> hintNumber h2" using hint_same_unit[of h1 b1 h2 b2] by simp
  moreover from a have "parseInt h1 = Some (int (hintNumber h1))" "parseInt h2 = Some (int (hintNumber h2))"
    using parseInt_hint by blast+
  ultimately show "crf (parseInt h2) \<le> crf (parseInt h1)" by (simp add: crf_antimono)
next
  assume "x264 (format opts)"
  then show "OutputOptions [''-crf'', decimal (crf (parseInt (bitrate opts)))]
        \<in> set (processVideo_command parseInt scaleStr opts out)"
    by (auto simp: processVideo_command_def x264_def)
qed

text \<open>
  Across units the mapping is not monotonic: \<open>'500k'\<close> asks for a quarter of the bitrate
  of \<open>'2M'\<close> and gets the lower CRF (18 against 23), that is the higher quality.
\<close>

lemma parseInt_500k: "parseInt ''500k'' = Some 500"
  by (simp add: parseInt_def isWhiteSpace_def digitValue_def Let_def)

lemma parseInt_2M: "parseInt ''2M'' = Some 2"
  by (simp add: parseInt_def isWhiteSpace_def digitValue_def Let_def)

lemma hintBitrate_500k: "hintBitrate ''500k'' = Some 500000"
  by (simp add: hintBitrate_def hintNumber_def hintUnit_def unitFactor_def digitValue_def)

lemma hintBitrate_2M: "hintBitrate ''2M'' = Some 2000000"
  by (simp add: hintBitrate_def hintNumber_def hintUnit_def unitFactor_def digitValue_def)

theorem crf_unit_counterexample:
  "hintBitrate ''500k'' = Some 500000 \<and> hintBitrate ''2M'' = Some 2000000 \<and>
   (500000::nat) \<le> 2000000 \<and>
   crf (parseInt ''500k'') = 18 \<and> crf (parseInt ''2M'') = 23 \<and>
   \<not> crf (parseInt ''2M'') \<le> crf (parseInt ''500k'') \<and>
   OutputOptions [''-crf'', ''18'']
     \<in> set (processVideo_command parseInt (\<lambda>r. ''1'')
          \<lparr>format = ''mp4'', resize = 100, bitrate = ''500k'', preset = ''web'', audio = True,
           resizeMode = ''percent'', width = None, height = None, crop = ''none''\<rparr> ''out.mp4'')"
  by (simp add: parseInt_500k parseInt_2M hintBitrate_500k hintBitrate_2M crf_def
      processVideo_command_def x264_def decimal.simps digit_def)


theorem crf_monotonic_witness:
  "parseInt ''1M'' = Some 1 \<and> parseInt ''5M'' = Some 5 \<and> (1::int) \<le> 5 \<and>
   hintBitrate ''1M'' = Some 1000000 \<and> hintBitrate ''5M'' = Some 5000000 \<and>
   hintUnit ''1M'' = hintUnit ''5M'' \<and> (1000000::nat) \<le> 5000000 \<and>
   crf (parseInt ''5M'') \<le> crf (parseInt ''1M'') \<and>
   crf (parseInt ''5M'') = 18 \<and> crf (parseInt ''1M'') = 28 \<and>
   x264 ''mp4'' \<and>
   OutputOptions [''-crf'', ''23'']
     \<in> set (processVideo_command parseInt (\<lambda>r. ''1'')
          \<lparr>format = ''mp4'', resize = 100, bitrate = ''2M'', preset = ''web'', audio = True,
           resizeMode = ''percent'', width = None, height = None, crop = ''none''\<rparr> ''out.mp4'')"
proof -
  have p: "parseInt ''1M'' = Some 1" "parseInt ''5M'' = Some 5"
    by (simp_all add: parseInt_def isWhiteSpace_def digitValue_def Let_def)
  have h: "hintBitrate ''1M'' = Some 1000000" "hintBitrate ''5M'' = Some 5000000"
    "hintUnit ''1M'' = hintUnit ''5M''"
    by (simp_all add: hintBitrate_def hintNumber_def hintUnit_def unitFactor_def digitValue_def)
  have x: "x264 ''mp4''" by (simp add: x264_def)
  from crf_monotonic[of "''1M''" 1 "''5M''" 5 "''abc''" 1000000 5000000
      "\<lparr>format = ''mp4'', resize = 100, bitrate = ''2M'', preset = ''web'', audio = True,
        resizeMode = ''percent'', width = None, height = None, crop = ''none''\<rparr>"
      "\<lambda>r. ''1''" "''out.mp4''"] p h x
  have "crf (parseInt ''5M'') \<le> crf (parseInt ''1M'') \<and>
        OutputOptions [''-crf'', decimal (crf (parseInt ''2M''))]
          \<in> set (processVideo_command parseInt (\<lambda>r. ''1'')
          \<lparr>format = ''mp4'', resize = 100, bitrate = ''2M'', preset = ''web'', audio = True,
           resizeMode = ''percent'', width = None, height = None, crop = ''none''\<rparr> ''out.mp4'')"
    by simp
  with p h x show ?thesis by (simp add: parseInt_2M crf_def decimal.simps digit_def)
qed

subsection \<open>Deleting files: unlink and the two safeUnlink\<close>

text \<open>
  What \<open>fs.unlink\<close> may throw on a file that exists: \<open>EBUSY\<close>, \<open>EPERM\<close>, or an error of
  another class (its code and message). \<open>ENOENT\<close> is thrown when the file is absent.
  A lock oracle \<open>lock p i\<close> gives the fault met by the attempt number \<open>i\<close> of a
  \<open>safeUnlink\<close> call on \<open>p\<close>, or \<open>None\<close> when the operating system lets the unlink through.
\<close>

datatype fault = Busy string | Perm string | Fatal string string

fun fault_error :: "fault \<Rightarrow> jserror" where
  "fault_error (Busy m) = (EBUSY, m)"
| "fault_error (Perm m) = (EPERM, m)"
| "fault_error (Fatal c m) = (ECODE c, m)"

text \<open>
  A directory: the entries by name. The payload is the file size for the image services
  and the \<open>stat\<close> record for the expiry sweep.
\<close>

type_synonym 'a directory = "(string \<times> 'a) list"

definition remove_entry :: "string \<Rightarrow> 'a directory \<Rightarrow> 'a directory" where
  "remove_entry p fs = filter (\<lambda>e. fst e \<noteq> p) fs"

definition unlink ::
  "(string \<Rightarrow> nat \<Rightarrow> fault option) \<Rightarrow> 'a directory \<Rightarrow> string \<Rightarrow> nat \<Rightarrow> jserror + 'a directory" where
  "unlink lock fs p i =
     (case map_of fs p of
        None \<Rightarrow> Inl (ENOENT, ''ENOENT: no such file or directory, unlink '' @ p)
      | Some v \<Rightarrow> (case lock p i of Some f \<Rightarrow> Inl (fault_error f) | None \<Rightarrow> Inr (remove_entry p fs)))"

text \<open>
  \<open>safeUnlink(filePath, retries = 3, delay = 100)\<close> of utils/fileCleanup.js. The model
  returns what the promise settles to (\<open>Inl\<close>: rejected with the error), the directory
  afterwards, and the trace of unlink attempts and \<open>setTimeout\<close> delays (in ms).
\<close>

datatype step = Unlink nat | Sleep nat

function safeUnlink_loop ::
  "(string \<Rightarrow> nat \<Rightarrow> fault option) \<Rightarrow> 'a directory \<Rightarrow> string \<Rightarrow> nat \<Rightarrow> nat \<Rightarrow> nat \<Rightarrow>
     (jserror + bool) \<times> 'a directory \<times> step list" where
  "safeUnlink_loop lock fs filePath retries delay i =
     (if i < retries then
        (case unlink lock fs filePath i of
           Inr fs' \<Rightarrow> (Inr True, fs', [Unlink i])
         | Inl err \<Rightarrow>
             if code err = EPERM \<or> code err = EBUSY then
               (if i < retries - 1 then
                  (case safeUnlink_loop lock fs filePath retries delay (i + 1) of
                     (r, fs', tr) \<Rightarrow> (r, fs', Unlink i # Sleep (delay * (i + 1)) # tr))
                else (Inr False, fs, [Unlink i]))
             else if code err = ENOENT then (Inr True, fs, [Unlink i])
             else (Inl err, fs, [Unlink i]))
      else (Inr False, fs, []))"
  by pat_completeness auto
termination
  by (relation "measure (\<lambda>(lock, fs, filePath, retries, delay, i). retries - i)") auto

declare safeUnlink_loop.simps [simp del]

definition safeUnlink ::
  "(string \<Rightarrow> nat \<Rightarrow> fault option) \<Rightarrow> 'a directory \<Rightarrow> string \<Rightarrow> nat \<Rightarrow> nat \<Rightarrow>
     (jserror + bool) \<times> 'a directory \<times> step list" where
  "safeUnlink lock fs filePath retries delay = safeUnlink_loop lock fs filePath retries delay 0"

definition retryable :: "fault option \<Rightarrow> bool" where
  "retryable x = (case x of Some (Busy m) \<Rightarrow> True | Some (Perm m) \<Rightarrow> True | _ \<Rightarrow> False)"

lemma retryable_code:
  "retryable x \<Longrightarrow>
   \<exists>f. x = Some f \<and> (code (fault_error f) = EPERM \<or> code (fault_error f) = EBUSY)"
  by (auto simp: retryable_def code_def split: option.splits fault.splits)

lemma unlink_retryable:
  "map_of fs p \<noteq> None \<Longrightarrow> retryable (lock p i) \<Longrightarrow>
   \<exists>err. unlink lock fs p i = Inl err \<and> (code err = EPERM \<or> code err = EBUSY)"
proof -
  assume a: "map_of fs p \<noteq> None" and r: "retryable (lock p i)"
  from retryable_code[OF r] obtain f where f: "lock p i = Some f"
    "code (fault_error f) = EPERM \<or> code (fault_error f) = EBUSY" by blast
  from a f(1) have "unlink lock fs p i = Inl (fault_error f)" by (auto simp: unlink_def)
  with f(2) show ?thesis by blast
qed

lemma safeUnlink_loop_busy:
  "map_of fs p \<noteq> None \<Longrightarrow> i < retries \<Longrightarrow> k = retries - 1 - i \<Longrightarrow>
   (\<forall>j. i \<le> j \<and> j < retries \<longrightarrow> retryable (lock p j)) \<Longrightarrow>
   safeUnlink_loop lock fs p retries delay i =
     (Inr False, fs,
      concat (map (\<lambda>j. [Unlink j, Sleep (delay * (j + 1))]) [i..<retries - 1]) @ [Unlink (retries - 1)])"
proof (induction k arbitrary: i)
  case 0
  then have i: "i = retries - 1" by simp
  from 0 obtain err where e: "unlink lock fs p i = Inl err" "code err = EPERM \<or> code err = EBUSY"
    using unlink_retryable[of fs p lock i] by auto
  show ?case using 0(2) e i
    by (subst safeUnlink_loop.simps) auto
next
  case (Suc k)
  then have i: "i < retries - 1" by simp
  from Suc obtain err where e: "unlink lock fs p i = Inl err" "code err = EPERM \<or> code err = EBUSY"
    using unlink_retryable[of fs p lock i] by auto
  have "safeUnlink_loop lock fs p retries delay (i + 1) =
     (Inr False, fs,
      concat (map (\<lambda>j. [Unlink j, Sleep (delay * (j + 1))]) [i + 1..<retries - 1]) @ [Unlink (retries - 1)])"
    using Suc.prems i by (intro Suc.IH) auto
  moreover have "[i..<retries - 1] = i # [i + 1..<retries - 1]"
    using i by (simp add: upt_conv_Cons)
  ultimately show ?case using Suc.prems(2) e i
    by (subst safeUnlink_loop.simps) auto
qed

lemma safeUnlink_loop_fatal:
  "map_of fs p \<noteq> None \<Longrightarrow> k < retries \<Longrightarrow> i \<le> k \<Longrightarrow> n = k - i \<Longrightarrow>
   (\<forall>j. i \<le> j \<and> j < k \<longrightarrow> retryable (lock p j)) \<Longrightarrow> lock p k = Some (Fatal c m) \<Longrightarrow>
   fst (safeUnlink_loop lock fs p retries delay i) = Inl (ECODE c, m)"
proof (induction n arbitrary: i)
  case 0
  then have "i = k" by simp
  with 0 show ?case
    by (subst safeUnlink_loop.simps) (auto simp: unlink_def code_def)
next
  case (Suc n)
  then have i: "i < k" by simp
  from Suc i obtain err where e: "unlink lock fs p i = Inl err" "code err = EPERM \<or> code err = EBUSY"
    using unlink_retryable[of fs p lock i] by auto
  have "fst (safeUnlink_loop lock fs p retries delay (i + 1)) = Inl (ECODE c, m)"
    using Suc.prems i by (intro Suc.IH) auto
  then show ?case using Suc.prems(2) e i
    by (subst safeUnlink_loop.simps) (auto split: prod.splits)
qed


text \<open>
  C4. With at least one attempt allowed (the default is three): on a path that does not
  exist the deleter returns true after a single unlink attempt and no delay; when every
  attempt meets \<open>EBUSY\<close> or \<open>EPERM\<close> it makes exactly \<open>retries\<close> attempts, sleeps
  \<open>delay * attemptNumber\<close> after each attempt but the last, and returns false without
  throwing; an error of any other class, at the first attempt that is not busy, is
  thrown to the caller.
\<close>

theorem safeUnlink_contract:
  assumes "0 < retries"
  shows "(map_of fs p = None \<longrightarrow> safeUnlink lock fs p retries delay = (Inr True, fs, [Unlink 0])) \<and>
   (map_of fs p \<noteq> None \<and> (\<forall>i<retries. retryable (lock p i)) \<longrightarrow>
      safeUnlink lock fs p retries delay =
        (Inr False, fs,
         concat (map (\<lambda>j. [Unlink j, Sleep (delay * (j + 1))]) [0..<retries - 1]) @
         [Unlink (retries - 1)])) \<and>
   (map_of fs p \<noteq> None \<and> k < retries \<and> (\<forall>i<k. retryable (lock p i)) \<and>
      lock p k = Some (Fatal c m) \<longrightarrow>
      fst (safeUnlink lock fs p retries delay) = Inl (ECODE c, m))"
proof (intro conjI impI)
  assume "map_of fs p = None"
  with assms show "safeUnlink lock fs p retries delay = (Inr True, fs, [Unlink 0])"
    unfolding safeUnlink_def
    by (subst safeUnlink_loop.simps) (simp add: unlink_def code_def)
next
  assume a: "map_of fs p \<noteq> None \<and> (\<forall>i<retries. retryable (lock p i))"
  show "safeUnlink lock fs p retries delay =
        (Inr False, fs,
         concat (map (\<lambda>j. [Unlink j, Sleep (delay * (j + 1))]) [0..<retries - 1]) @
         [Unlink (retries - 1)])"
    unfolding safeUnlink_def using a assms
    by (intro safeUnlink_loop_busy[where k = "retries - 1 - 0"]) auto
next
  assume a: "map_of fs p \<noteq> None \<and> k < retries \<and> (\<forall>i<k. retryable (lock p i)) \<and>
      lock p k = Some (Fatal c m)"
  show "fst (safeUnlink lock fs p retries delay) = Inl (ECODE c, m)"
    unfolding safeUnlink_def using a
    by (intro safeUnlink_loop_fatal[where k = k and n = "k - 0"]) auto
qed

theorem safeUnlink_contract_witness:
  "safeUnlink (\<lambda>p i. None) ([] :: (string \<times> nat) list) ''gone.webp'' 3 100
     = (Inr True, [], [Unlink 0]) \<and>
   safeUnlink (\<lambda>p i. Some (Busy ''EBUSY: resource busy or locked'')) [(''a.webp'', 7::nat)]
       ''a.webp'' 3 100
     = (Inr False, [(''a.webp'', 7)], [Unlink 0, Sleep 100, Unlink 1, Sleep 200, Unlink 2]) \<and>
   fst (safeUnlink (\<lambda>p i. if i = 0 then Some (Perm ''EPERM: operation not permitted'')
                           else Some (Fatal ''EIO'' ''EIO: i/o error''))
       [(''a.webp'', 7::nat)] ''a.webp'' 3 100)
     = Inl (ECODE ''EIO'', ''EIO: i/o error'')"
proof -
  have z: "(0::nat) < 3" by simp
  have u: "[0..<2] = [0, Suc 0]" by (simp add: upt_rec)
  from safeUnlink_contract[OF z, of "[] :: (string \<times> nat) list" "''gone.webp''" "\<lambda>p i. None" 100]
  have a: "safeUnlink (\<lambda>p i. None) ([] :: (string \<times> nat) list) ''gone.webp'' 3 100
     = (Inr True, [], [Unlink 0])" by simp
  from safeUnlink_contract[OF z, of "[(''a.webp'', 7::nat)]" "''a.webp''"
      "\<lambda>p i. Some (Busy ''EBUSY: resource busy or locked'')" 100]
  have b: "safeUnlink (\<lambda>p i. Some (Busy ''EBUSY: resource busy or locked'')) [(''a.webp'', 7::nat)]
       ''a.webp'' 3 100
     = (Inr False, [(''a.webp'', 7)], [Unlink 0, Sleep 100, Unlink 1, Sleep 200, Unlink 2])"
    by (simp add: retryable_def u)
  from safeUnlink_contract[OF z, of "[(''a.webp'', 7::nat)]" "''a.webp''"
      "\<lambda>p i. if i = 0 then Some (Perm ''EPERM: operation not permitted'')
                           else Some (Fatal ''EIO'' ''EIO: i/o error'')" 100 1 "''EIO''" "''EIO: i/o error''"]
  have c: "fst (safeUnlink (\<lambda>p i. if i = 0 then Some (Perm ''EPERM: operation not permitted'')
                           else Some (Fatal ''EIO'' ''EIO: i/o error''))
       [(''a.webp'', 7::nat)] ''a.webp'' 3 100)
     = Inl (ECODE ''EIO'', ''EIO: i/o error'')"
    by (simp add: retryable_def)
  from a b c show ?thesis by simp
qed

lemma fault_error_code [simp]:
  "fst (fault_error f) \<noteq> ENOENT"
  "(fst (fault_error f) = EPERM) = (\<exists>m. f = Perm m)"
  "(fst (fault_error f) = EBUSY) = (\<exists>m. f = Busy m)"
  by (cases f; simp)+

lemma map_of_remove_entry: "map_of (remove_entry q fs) p = (if p = q then None else map_of fs p)"
  by (induction fs) (auto simp: remove_entry_def)

lemma safeUnlink_loop_state:
  "safeUnlink_loop lock fs p r d i = (res, fs', tr) \<Longrightarrow>
   fs' = (if res = Inr True \<and> map_of fs p \<noteq> None then remove_entry p fs else fs)"
proof (induction lock fs p r d i arbitrary: res fs' tr rule: safeUnlink_loop.induct)
  case (1 lock fs p r d i)
  show ?case
  proof (cases "i < r")
    case False
    with "1.prems" show ?thesis by (subst (asm) safeUnlink_loop.simps) auto
  next
    case True
    show ?thesis
    proof (cases "unlink lock fs p i")
      case (Inr fs1)
      with True "1.prems" show ?thesis
        by (subst (asm) safeUnlink_loop.simps)
           (auto simp: unlink_def split: option.splits)
    next
      case (Inl err)
      show ?thesis
      proof (cases "(code err = EPERM \<or> code err = EBUSY) \<and> i < r - 1")
        case False
        with True Inl "1.prems" show ?thesis
          by (subst (asm) safeUnlink_loop.simps)
             (auto simp: unlink_def code_def split: option.splits if_splits)
      next
        case rec: True
        obtain r1 fs1 tr1 where s: "safeUnlink_loop lock fs p r d (i + 1) = (r1, fs1, tr1)"
          by (cases "safeUnlink_loop lock fs p r d (i + 1)") auto
        from "1.IH"[OF True Inl _ _ s] rec
        have "fs1 = (if r1 = Inr True \<and> map_of fs p \<noteq> None then remove_entry p fs else fs)"
          by blast
        moreover from True Inl rec s "1.prems" have "res = r1 \<and> fs' = fs1"
          by (subst (asm) safeUnlink_loop.simps) auto
        ultimately show ?thesis by simp
      qed
    qed
  qed
qed

definition deletable :: "(string \<Rightarrow> nat \<Rightarrow> fault option) \<Rightarrow> string \<Rightarrow> bool" where
  "deletable lock p =
     (lock p 0 = None \<or>
      (retryable (lock p 0) \<and> (lock p 1 = None \<or> (retryable (lock p 1) \<and> lock p 2 = None))))"

lemma safeUnlink_3_result:
  assumes m: "map_of fs p = Some v"
  shows "(fst (safeUnlink lock fs p 3 d) = Inr True) = deletable lock p"
proof -
  have n: "(1::nat) = Suc 0" "(2::nat) = Suc (Suc 0)" by simp_all
  show ?thesis unfolding safeUnlink_def deletable_def n
    by (cases "lock p 0"; cases "lock p (Suc 0)"; cases "lock p (Suc (Suc 0))")
       (auto simp: safeUnlink_loop.simps[of _ _ _ 3] unlink_def code_def retryable_def m
             split: fault.splits)
qed


subsection \<open>The expiry sweep\<close>

text \<open>
  The faults of the operating system during one call: the lock oracle, what \<open>fs.stat\<close>
  throws on a path, and what \<open>fs.readdir\<close> throws.
\<close>

record osFaults =
  lock :: "string \<Rightarrow> nat \<Rightarrow> fault option"
  statFault :: "string \<Rightarrow> jserror option"
  readdirFault :: "jserror option"

definition stat :: "osFaults \<Rightarrow> 'a directory \<Rightarrow> string \<Rightarrow> jserror + 'a" where
  "stat F fs p =
     (case statFault F p of
        Some err \<Rightarrow> Inl err
      | None \<Rightarrow>
          (case map_of fs p of
             None \<Rightarrow> Inl (ENOENT, ''ENOENT: no such file or directory, stat '' @ p)
           | Some v \<Rightarrow> Inr v))"

text \<open>
  \<open>cleanupExpiredFiles\<close> of utils/fileCleanup.js. The uploads directory is \<open>None\<close> when it
  does not exist. Times are in milliseconds; \<open>now\<close> is \<open>Date.now()\<close>, read once before the
  loop. The loop body is \<open>cleanup_file\<close>; the state is the directory and the counters.
\<close>

record fstat =
  isDirectory :: bool
  mtimeMs :: int

definition FILE_EXPIRY_MS :: int where
  "FILE_EXPIRY_MS = 10 * 60 * 1000"

record sweepCount =
  cleaned :: nat
  errors :: nat

definition cleanup_file ::
  "osFaults \<Rightarrow> int \<Rightarrow> string \<Rightarrow> fstat directory \<times> sweepCount \<Rightarrow> fstat directory \<times> sweepCount" where
  "cleanup_file F now file s =
     (case s of (fs, n) \<Rightarrow>
        (case stat F fs file of
           Inl err \<Rightarrow> (fs, n\<lparr>errors := errors n + 1\<rparr>)
         | Inr stats \<Rightarrow>
             if isDirectory stats then (fs, n)
             else
               (let fileAge = now - mtimeMs stats in
                if fileAge > FILE_EXPIRY_MS then
                  (case safeUnlink (lock F) fs file 3 100 of
                     (Inl err, fs', tr) \<Rightarrow> (fs', n\<lparr>errors := errors n + 1\<rparr>)
                   | (Inr deleted, fs', tr) \<Rightarrow>
                       if deleted then (fs', n\<lparr>cleaned := cleaned n + 1\<rparr>)
                       else (fs', n\<lparr>errors := errors n + 1\<rparr>))
                else (fs, n))))"

fun cleanup_loop ::
  "osFaults \<Rightarrow> int \<Rightarrow> string list \<Rightarrow> fstat directory \<times> sweepCount \<Rightarrow> fstat directory \<times> sweepCount" where
  "cleanup_loop F now [] s = s"
| "cleanup_loop F now (file # files) s = cleanup_loop F now files (cleanup_file F now file s)"

definition cleanupExpiredFiles ::
  "osFaults \<Rightarrow> int \<Rightarrow> fstat directory option \<Rightarrow> sweepCount \<times> fstat directory option" where
  "cleanupExpiredFiles F now uploads =
     (case uploads of
        None \<Rightarrow> (\<lparr>cleaned = 0, errors = 0\<rparr>, None)
      | Some fs \<Rightarrow>
          (case readdirFault F of
             Some err \<Rightarrow> (\<lparr>cleaned = 0, errors = 1\<rparr>, Some fs)
           | None \<Rightarrow>
               (case cleanup_loop F now (map fst fs) (fs, \<lparr>cleaned = 0, errors = 0\<rparr>) of
                  (fs', n) \<Rightarrow> (n, Some fs'))))"

lemma safeUnlink_state:
  "safeUnlink lk fs p r d = (res, fs', tr) \<Longrightarrow>
   fs' = (if res = Inr True \<and> map_of fs p \<noteq> None then remove_entry p fs else fs)"
  unfolding safeUnlink_def by (rule safeUnlink_loop_state)

text \<open>
  \<open>deletable\<close>: unlink gets through within the three attempts of \<open>safeUnlink\<close>.
  \<open>reaped\<close>: the sweep removes the entry.
\<close>

definition reaped :: "osFaults \<Rightarrow> int \<Rightarrow> string \<Rightarrow> fstat \<Rightarrow> bool" where
  "reaped F now p st =
     (statFault F p = None \<and> \<not> isDirectory st \<and> now - mtimeMs st > FILE_EXPIRY_MS \<and>
      deletable (lock F) p)"

text \<open>
  \<open>failed\<close>: the sweep counts the entry under \<open>errors\<close>, because \<open>stat\<close> throws on it or
  because it is an expired regular file that \<open>safeUnlink\<close> does not delete (it returns
  false for a file that stays busy, and what it throws is caught by the loop body).
\<close>

definition failed :: "osFaults \<Rightarrow> int \<Rightarrow> string \<Rightarrow> fstat \<Rightarrow> bool" where
  "failed F now p st =
     (statFault F p \<noteq> None \<or>
      (\<not> isDirectory st \<and> now - mtimeMs st > FILE_EXPIRY_MS \<and> \<not> deletable (lock F) p))"

lemma cleanup_file_other:
  "q \<noteq> p \<Longrightarrow> map_of (fst (cleanup_file F now q (fs, n))) p = map_of fs p"
proof -
  assume qp: "q \<noteq> p"
  obtain res fs1 tr where u: "safeUnlink (lock F) fs q 3 100 = (res, fs1, tr)"
    by (cases "safeUnlink (lock F) fs q 3 100") auto
  from safeUnlink_state[OF u] qp have "map_of fs1 p = map_of fs p"
    by (auto simp: map_of_remove_entry)
  with u show ?thesis
    by (auto simp: cleanup_file_def Let_def split: sum.splits)
qed

lemma cleanup_file_self:
  assumes "map_of fs p = Some st"
  shows "map_of (fst (cleanup_file F now p (fs, n))) p =
           (if reaped F now p st then None else Some st)"
proof -
  obtain res fs1 tr where u: "safeUnlink (lock F) fs p 3 100 = (res, fs1, tr)"
    by (cases "safeUnlink (lock F) fs p 3 100") auto
  from safeUnlink_3_result[OF assms, of "lock F" 100] u
  have r: "(res = Inr True) = deletable (lock F) p" by simp
  from safeUnlink_state[OF u] assms r
  have "map_of fs1 p = (if deletable (lock F) p then None else Some st)"
    by (auto simp: map_of_remove_entry)
  with u r assms show ?thesis
    by (auto simp: cleanup_file_def reaped_def stat_def Let_def split: sum.splits option.splits)
qed

lemma cleanup_loop_frame:
  "p \<notin> set files \<Longrightarrow> map_of (fst (cleanup_loop F now files s)) p = map_of (fst s) p"
proof (induction files arbitrary: s)
  case Nil
  then show ?case by simp
next
  case (Cons q files)
  obtain fs n where s: "s = (fs, n)" by (cases s)
  from Cons.prems have "q \<noteq> p" "p \<notin> set files" by auto
  with Cons.IH[of "cleanup_file F now q s"] cleanup_file_other[of q p F now fs n] s
  show ?case by simp
qed

lemma cleanup_loop_entry:
  "distinct files \<Longrightarrow> p \<in> set files \<Longrightarrow> map_of (fst s) p = Some st \<Longrightarrow>
   map_of (fst (cleanup_loop F now files s)) p = (if reaped F now p st then None else Some st)"
proof (induction files arbitrary: s)
  case Nil
  then show ?case by simp
next
  case (Cons q files)
  obtain fs n where s: "s = (fs, n)" by (cases s)
  show ?case
  proof (cases "q = p")
    case True
    with Cons.prems have "p \<notin> set files" by simp
    from cleanup_loop_frame[OF this, of F now "cleanup_file F now p s"]
      cleanup_file_self[of fs p st F now n] Cons.prems(3) s True
    show ?thesis by simp
  next
    case False
    with Cons.prems have "distinct files" "p \<in> set files" by auto
    moreover from False cleanup_file_other[of q p F now fs n] Cons.prems(3) s
    have "map_of (fst (cleanup_file F now q s)) p = Some st" by simp
    ultimately show ?thesis using Cons.IH[of "cleanup_file F now q s"] by simp
  qed
qed

lemma cleanup_file_count:
  assumes "map_of fs p = Some st"
  shows "snd (cleanup_file F now p (fs, n)) =
           \<lparr>cleaned = cleaned n + (if reaped F now p st then 1 else 0),
            errors = errors n + (if failed F now p st then 1 else 0)\<rparr>"
proof -
  obtain res fs1 tr where u: "safeUnlink (lock F) fs p 3 100 = (res, fs1, tr)"
    by (cases "safeUnlink (lock F) fs p 3 100") auto
  from safeUnlink_3_result[OF assms, of "lock F" 100] u
  have r: "(res = Inr True) = deletable (lock F) p" by simp
  with u assms show ?thesis
    by (cases res)
       (auto simp: cleanup_file_def reaped_def failed_def stat_def Let_def
             split: sum.splits option.splits)
qed

lemma cleanup_loop_count:
  "distinct (map fst es) \<Longrightarrow> \<forall>e\<in>set es. map_of (fst s) (fst e) = Some (snd e) \<Longrightarrow>
   snd (cleanup_loop F now (map fst es) s) =
     \<lparr>cleaned = cleaned (snd s) + length (filter (\<lambda>e. reaped F now (fst e) (snd e)) es),
      errors = errors (snd s) + length (filter (\<lambda>e. failed F now (fst e) (snd e)) es)\<rparr>"
proof (induction es arbitrary: s)
  case Nil
  then show ?case by simp
next
  case (Cons e es)
  obtain fs n where s: "s = (fs, n)" by (cases s)
  obtain p st where e: "e = (p, st)" by (cases e)
  from Cons.prems s e have m: "map_of fs p = Some st" by simp
  have rest: "\<forall>x\<in>set es. map_of (fst (cleanup_file F now p s)) (fst x) = Some (snd x)"
  proof
    fix x assume x: "x \<in> set es"
    with Cons.prems(1) e have "p \<noteq> fst x" by force
    from cleanup_file_other[OF this, of F now fs n] Cons.prems(2) x s
    show "map_of (fst (cleanup_file F now p s)) (fst x) = Some (snd x)" by simp
  qed
  from Cons.prems(1) have "distinct (map fst es)" by simp
  from Cons.IH[OF this rest] cleanup_file_count[OF m, of F now n] s e
  show ?case by simp
qed

text \<open>
  C5 (amended). When the uploads directory does not exist the sweep returns
  \<open>{cleaned: 0, errors: 0}\<close>. Otherwise, for every entry of the directory, one sweep
  removes it exactly when it is a regular file whose \<open>stat\<close> succeeds, whose age is
  strictly greater than ten minutes, and whose unlink gets through within the three
  attempts of \<open>safeUnlink\<close>; every other entry is left as it was. The counters it
  returns are determined: \<open>cleaned\<close> is the number of entries removed, and \<open>errors\<close> is the
  number of entries whose \<open>stat\<close> throws or that are expired regular files whose unlink
  does not get through.
\<close>

theorem cleanupExpiredFiles_sweep:
  "cleanupExpiredFiles F now None = (\<lparr>cleaned = 0, errors = 0\<rparr>, None) \<and>
   (distinct (map fst fs) \<and> readdirFault F = None \<longrightarrow>
      (\<exists>fs'. cleanupExpiredFiles F now (Some fs) =
           (\<lparr>cleaned = length (filter (\<lambda>(p, st). reaped F now p st) fs),
             errors = length (filter (\<lambda>(p, st). failed F now p st) fs)\<rparr>, Some fs') \<and>
         ((p, st) \<in> set fs \<longrightarrow>
            map_of fs' p = (if reaped F now p st then None else Some st))))"
proof (intro conjI impI)
  show "cleanupExpiredFiles F now None = (\<lparr>cleaned = 0, errors = 0\<rparr>, None)"
    by (simp add: cleanupExpiredFiles_def)
next
  assume a: "distinct (map fst fs) \<and> readdirFault F = None"
  obtain fs' n where l: "cleanup_loop F now (map fst fs) (fs, \<lparr>cleaned = 0, errors = 0\<rparr>) = (fs', n)"
    by (cases "cleanup_loop F now (map fst fs) (fs, \<lparr>cleaned = 0, errors = 0\<rparr>)") auto
  from a have "\<forall>e\<in>set fs. map_of (fst (fs, \<lparr>cleaned = 0, errors = 0\<rparr>)) (fst e) = Some (snd e)"
    by auto
  from cleanup_loop_count[OF _ this, of F now] a l
  have n: "n = \<lparr>cleaned = length (filter (\<lambda>(p, st). reaped F now p st) fs),
             errors = length (filter (\<lambda>(p, st). failed F now p st) fs)\<rparr>"
    by (simp add: case_prod_unfold)
  have e: "(p, st) \<in> set fs \<longrightarrow> map_of fs' p = (if reaped F now p st then None else Some st)"
  proof
    assume i: "(p, st) \<in> set fs"
    with a have m: "map_of fs p = Some st" by simp
    from i have pin: "p \<in> set (map fst fs)" by force
    from cleanup_loop_entry[of "map fst fs" p "(fs, \<lparr>cleaned = 0, errors = 0\<rparr>)" st F now] a pin m l
    show "map_of fs' p = (if reaped F now p st then None else Some st)" by simp
  qed
  from a l n e show "\<exists>fs'. cleanupExpiredFiles F now (Some fs) =
           (\<lparr>cleaned = length (filter (\<lambda>(p, st). reaped F now p st) fs),
             errors = length (filter (\<lambda>(p, st). failed F now p st) fs)\<rparr>, Some fs') \<and>
         ((p, st) \<in> set fs \<longrightarrow>
            map_of fs' p = (if reaped F now p st then None else Some st))"
    by (simp add: cleanupExpiredFiles_def case_prod_unfold)
qed

text \<open>An operating system that throws nothing.\<close>

definition quiet :: osFaults where
  "quiet = \<lparr>lock = (\<lambda>p i. None), statFault = (\<lambda>p. None), readdirFault = None\<rparr>"

text \<open>
  A file aged eleven minutes that another process keeps busy survives the sweep and is
  counted as an error.
\<close>

theorem cleanupExpiredFiles_locked_counterexample:
  "(660000::int) - 0 > FILE_EXPIRY_MS \<and>
   cleanupExpiredFiles (quiet\<lparr>lock := \<lambda>p i. Some (Busy ''EBUSY: resource busy or locked'')\<rparr>)
       660000 (Some [(''old.webp'', \<lparr>isDirectory = False, mtimeMs = 0\<rparr>)])
     = (\<lparr>cleaned = 0, errors = 1\<rparr>, Some [(''old.webp'', \<lparr>isDirectory = False, mtimeMs = 0\<rparr>)])"
  by (simp add: cleanupExpiredFiles_def cleanup_file_def stat_def quiet_def FILE_EXPIRY_MS_def
      safeUnlink_def safeUnlink_loop.simps unlink_def code_def)

text \<open>
  A sweep over a file aged eleven minutes, a file aged nine minutes, a directory, and a
  file aged eleven minutes that stays busy: one entry cleaned, one error.
\<close>

definition busyFile :: osFaults where
  "busyFile = quiet\<lparr>lock := \<lambda>p i. if p = ''held.webp''
                 then Some (Busy ''EBUSY: resource busy or locked'') else None\<rparr>"

theorem cleanupExpiredFiles_sweep_witness:
  "cleanupExpiredFiles busyFile 660000
       (Some [(''old.webp'', \<lparr>isDirectory = False, mtimeMs = 0\<rparr>),
              (''new.webp'', \<lparr>isDirectory = False, mtimeMs = 120000\<rparr>),
              (''sub'', \<lparr>isDirectory = True, mtimeMs = 0\<rparr>),
              (''held.webp'', \<lparr>isDirectory = False, mtimeMs = 0\<rparr>)])
     = (\<lparr>cleaned = 1, errors = 1\<rparr>,
        Some [(''new.webp'', \<lparr>isDirectory = False, mtimeMs = 120000\<rparr>),
              (''sub'', \<lparr>isDirectory = True, mtimeMs = 0\<rparr>),
              (''held.webp'', \<lparr>isDirectory = False, mtimeMs = 0\<rparr>)]) \<and>
   reaped busyFile 660000 ''old.webp'' \<lparr>isDirectory = False, mtimeMs = 0\<rparr> \<and>
   \<not> reaped busyFile 660000 ''new.webp'' \<lparr>isDirectory = False, mtimeMs = 120000\<rparr> \<and>
   failed busyFile 660000 ''held.webp'' \<lparr>isDirectory = False, mtimeMs = 0\<rparr>"
  using cleanupExpiredFiles_sweep[of busyFile 660000
      "[(''old.webp'', \<lparr>isDirectory = False, mtimeMs = 0\<rparr>),
        (''new.webp'', \<lparr>isDirectory = False, mtimeMs = 120000\<rparr>),
        (''sub'', \<lparr>isDirectory = True, mtimeMs = 0\<rparr>),
        (''held.webp'', \<lparr>isDirectory = False, mtimeMs = 0\<rparr>)]"
      "''old.webp''" "\<lparr>isDirectory = False, mtimeMs = 0\<rparr>"]
  by (simp add: cleanupExpiredFiles_def cleanup_file_def stat_def quiet_def busyFile_def
      FILE_EXPIRY_MS_def safeUnlink_def safeUnlink_loop.simps unlink_def code_def reaped_def
      failed_def deletable_def retryable_def remove_entry_def)

subsection \<open>Archive assembler\<close>

text \<open>
  \<open>createArchive(files)\<close> of services/archiver.js. The helpers \<open>isPathTraversalSafe\<close> and
  \<open>isWithinDirectory\<close> of utils/security.js, Node's \<open>path.join\<close> and the state of the
  file system (\<open>fs.access\<close>, \<open>fs.mkdir\<close>) are parameters. \<open>stamp\<close> is the
  \<open>${timestamp}-${random}\<close> part of the archive's name.
\<close>

record archiveEnv =
  UPLOAD_DIR :: string
  path_join :: "string \<Rightarrow> string \<Rightarrow> string"
  isPathTraversalSafe :: "string \<Rightarrow> bool"
  isWithinDirectory :: "string \<Rightarrow> string \<Rightarrow> bool"
  accessible :: "string \<Rightarrow> bool"
  mkdirFault :: "jserror option"
  stamp :: string

text \<open>
  The loop over the requested names. \<open>archive\<close> holds the entries handed to
  \<open>archive.file(filePath, {name: filename})\<close> so far, \<open>addedFiles\<close> counts them.
\<close>

fun addFiles ::
  "archiveEnv \<Rightarrow> string list \<Rightarrow> (string \<times> string) list \<Rightarrow> nat \<Rightarrow> (string \<times> string) list \<times> nat" where
  "addFiles E [] archive addedFiles = (archive, addedFiles)"
| "addFiles E (filename # files) archive addedFiles =
     (if \<not> isPathTraversalSafe E filename then addFiles E files archive addedFiles
      else
        (let filePath = path_join E (UPLOAD_DIR E) filename in
         if \<not> isWithinDirectory E filePath (UPLOAD_DIR E) then addFiles E files archive addedFiles
         else if accessible E filePath
           then addFiles E files (archive @ [(filePath, filename)]) (addedFiles + 1)
           else addFiles E files archive addedFiles))"

definition createArchive ::
  "archiveEnv \<Rightarrow> string list \<Rightarrow> string + string \<times> (string \<times> string) list" where
  "createArchive E files =
     (let archivePath = path_join E (UPLOAD_DIR E) (''archive-'' @ stamp E @ ''.zip'') in
      case mkdirFault E of
        Some err \<Rightarrow> Inl (message err)
      | None \<Rightarrow>
          (case addFiles E files [] 0 of
             (archive, addedFiles) \<Rightarrow>
               if addedFiles = 0 then Inl ''No valid files to archive''
               else Inr (archivePath, archive)))"

text \<open>
  The names that survive, in the words of the specification: safe against path
  traversal, resolving inside the uploads directory, and present.
\<close>

definition survives :: "archiveEnv \<Rightarrow> string \<Rightarrow> bool" where
  "survives E filename =
     (isPathTraversalSafe E filename \<and>
      isWithinDirectory E (path_join E (UPLOAD_DIR E) filename) (UPLOAD_DIR E) \<and>
      accessible E (path_join E (UPLOAD_DIR E) filename))"

lemma addFiles_filter:
  "addFiles E files archive addedFiles =
     (archive @ map (\<lambda>f. (path_join E (UPLOAD_DIR E) f, f)) (filter (survives E) files),
      addedFiles + length (filter (survives E) files))"
  by (induction files arbitrary: archive addedFiles) (simp_all add: survives_def Let_def)

text \<open>
  C6. Once the uploads directory is ensured, \<open>createArchive\<close> skips every requested
  name that is unsafe, outside the uploads directory or absent, and goes on with the
  next one; the archive gets exactly the surviving names, in request order; and when no
  name survives the operation fails with \<open>No valid files to archive\<close>.
\<close>

theorem createArchive_survivors:
  "createArchive (E\<lparr>mkdirFault := None\<rparr>) files =
     (if filter (survives E) files = [] then Inl ''No valid files to archive''
      else Inr (path_join E (UPLOAD_DIR E) (''archive-'' @ stamp E @ ''.zip''),
                map (\<lambda>f. (path_join E (UPLOAD_DIR E) f, f)) (filter (survives E) files)))"
proof -
  have s: "survives (E\<lparr>mkdirFault := None\<rparr>) = survives E"
    by (simp add: survives_def fun_eq_iff)
  show ?thesis
    by (simp add: createArchive_def addFiles_filter s Let_def)
qed

definition uploads_a :: archiveEnv where
  "uploads_a =
     \<lparr>UPLOAD_DIR = ''/uploads'', path_join = (\<lambda>d f. d @ ''/'' @ f),
      isPathTraversalSafe = (\<lambda>f. f \<noteq> ''../../etc/passwd''),
      isWithinDirectory = (\<lambda>p d. True),
      accessible = (\<lambda>p. p = ''/uploads/a.webp''),
      mkdirFault = None, stamp = ''1700000000000-k2j4''\<rparr>"

theorem createArchive_survivors_witness:
  "createArchive uploads_a [''a.webp'', ''../../etc/passwd''] =
     Inr (''/uploads/archive-1700000000000-k2j4.zip'', [(''/uploads/a.webp'', ''a.webp'')]) \<and>
   createArchive uploads_a [''b.webp'', ''../../etc/passwd''] = Inl ''No valid files to archive''"
  using createArchive_survivors[of uploads_a "[''a.webp'', ''../../etc/passwd'']"]
    createArchive_survivors[of uploads_a "[''b.webp'', ''../../etc/passwd'']"]
  by (simp add: uploads_a_def survives_def)

subsection \<open>File names and the type router\<close>

text \<open>
  Node's \<open>path.extname\<close> and \<open>path.basename(p, ext)\<close> on a name without path separators
  (multer's \<open>originalname\<close> is a bare file name), and \<open>toLowerCase\<close> on ASCII letters.
  \<open>extname\<close> is empty when the name has no dot, when its only dot is the first
  character, and for \<open>..\<close>; otherwise it runs from the last dot to the end.
\<close>

definition lowerChar :: "char \<Rightarrow> char" where
  "lowerChar c =
     (case map_of (zip ''ABCDEFGHIJKLMNOPQRSTUVWXYZ'' ''abcdefghijklmnopqrstuvwxyz'') c of
        Some l \<Rightarrow> l
      | None \<Rightarrow> c)"

definition toLowerCase :: "string \<Rightarrow> string" where
  "toLowerCase s = map lowerChar s"

definition extname :: "string \<Rightarrow> string" where
  "extname p =
     (let startDot = length p - length (takeWhile (\<lambda>c. c \<noteq> CHR ''.'') (rev p)) - 1 in
      if CHR ''.'' \<notin> set p \<or> startDot = 0 \<or> p = ''..'' then []
      else drop startDot p)"

definition basename :: "string \<Rightarrow> string \<Rightarrow> string" where
  "basename p ext =
     (if ext \<noteq> [] \<and> length ext \<le> length p \<and> drop (length p - length ext) p = ext
      then take (length p - length ext) p
      else p)"

text \<open>
  An uploaded file as multer hands it over: the client's name and the name under which
  the upload is stored in the uploads directory (\<open>path.dirname(file.path)\<close> is the
  uploads directory throughout).
\<close>

record upfile =
  originalname :: string
  path :: string

definition baseFilename :: "upfile \<Rightarrow> string" where
  "baseFilename file = basename (originalname file) (extname (originalname file))"

definition IMAGEMAGICK_PREFERRED_FORMATS :: "string list" where
  "IMAGEMAGICK_PREFERRED_FORMATS =
     [''.tiff'', ''.tif'', ''.psd'', ''.eps'', ''.ai'', ''.pdf'', ''.heic'', ''.heif'']"

definition shouldUseImageMagick :: "string \<Rightarrow> bool" where
  "shouldUseImageMagick filename =
     (toLowerCase (extname filename) \<in> set IMAGEMAGICK_PREFERRED_FORMATS)"

definition isSvg :: "upfile \<Rightarrow> bool" where
  "isSvg f = (toLowerCase (extname (originalname f)) = ''.svg'')"

subsection \<open>Savings\<close>

text \<open>
  JavaScript numbers are IEEE 754 doubles. A finite non-zero double is a sign, a
  significand of 53 bits and an exponent; \<open>dvalue\<close> is the rational it denotes.
  An arithmetic operation gives the double nearest to the exact result, ties to the even
  significand: \<open>normalise\<close> scales the exact quotient \<open>a / b * 2^e\<close> until
  \<open>2^52 \<le> a / b < 2^53\<close> and \<open>roundHalfEven\<close> rounds it to an integer. The results of
  the operations modelled here stay in the normal range (file sizes are below \<open>2^53\<close>), so
  there is no overflow and no subnormal.
\<close>

record double =
  negative :: bool
  significand :: nat
  exponent :: int

definition dvalue :: "double \<Rightarrow> rat" where
  "dvalue x = (if negative x then - 1 else 1) * of_nat (significand x) * 2 powi exponent x"

definition roundHalfEven :: "nat \<Rightarrow> nat \<Rightarrow> nat" where
  "roundHalfEven a b =
     (let q = a div b; r = a mod b in
      if 2 * r < b then q
      else if b < 2 * r then q + 1
      else if even q then q else q + 1)"

function normalise :: "nat \<Rightarrow> nat \<Rightarrow> int \<Rightarrow> nat \<times> nat \<times> int" where
  "normalise a b e =
     (if a = 0 \<or> b = 0 then (a, b, e)
      else if a < 2 ^ 52 * b then normalise (2 * a) b (e - 1)
      else if 2 ^ 53 * b \<le> a then normalise a (2 * b) (e + 1)
      else (a, b, e))"
  by pat_completeness auto
termination
  by (relation "measure (\<lambda>(a, b, e). (2 ^ 52 * b - a) + (a + 1 - 2 ^ 53 * b))") auto

declare normalise.simps [simp del]

text \<open>\<open>nearest neg a b e\<close> is the double nearest to \<open>a / b * 2^e\<close>, with the sign \<open>neg\<close>.\<close>

definition nearest :: "bool \<Rightarrow> nat \<Rightarrow> nat \<Rightarrow> int \<Rightarrow> double" where
  "nearest neg a b e =
     (if a = 0 then \<lparr>negative = neg, significand = 0, exponent = 0\<rparr>
      else
        (case normalise a b e of (a1, b1, e1) \<Rightarrow>
           \<lparr>negative = neg, significand = roundHalfEven a1 b1, exponent = e1\<rparr>))"

text \<open>
  \<open>x / y\<close> for two integers (with \<open>y\<close> not zero), and \<open>x * k\<close> for a double and an integer.
\<close>

definition divide_int :: "int \<Rightarrow> int \<Rightarrow> double" where
  "divide_int x y = nearest ((x < 0) \<noteq> (y < 0)) (nat \<bar>x\<bar>) (nat \<bar>y\<bar>) 0"

definition times_int :: "double \<Rightarrow> int \<Rightarrow> double" where
  "times_int x k =
     nearest (negative x \<noteq> (k < 0)) (significand x * nat \<bar>k\<bar>) 1 (exponent x)"

text \<open>
  \<open>Number.prototype.toFixed(2)\<close> on the value of a double: the sign, then the integer
  \<open>n\<close> for which \<open>n / 100\<close> is nearest to the magnitude, the larger one of two.
  \<open>percentNumber\<close> is the number \<open>(originalSize - processedSize) / originalSize * 100\<close>
  and \<open>percentSaved\<close> its \<open>toFixed(2)\<close>; a zero original size gives JavaScript's \<open>NaN\<close> or
  \<open>-Infinity\<close>. \<open>clampedSaved\<close> is the conditional of the SVG-to-raster pass.
\<close>

definition hundredths :: "rat \<Rightarrow> nat" where
  "hundredths x = nat \<lfloor>\<bar>x\<bar> * 100 + 1 / 2\<rfloor>"

definition toFixed2 :: "rat \<Rightarrow> string" where
  "toFixed2 x =
     (let n = hundredths x in
      (if x < 0 then ''-'' else []) @ decimal (n div 100) @ ''.'' @
      [digit (n mod 100 div 10), digit (n mod 10)])"

definition percentNumber :: "nat \<Rightarrow> nat \<Rightarrow> double" where
  "percentNumber originalSize processedSize =
     times_int (divide_int (int originalSize - int processedSize) (int originalSize)) 100"

definition percentSaved :: "nat \<Rightarrow> nat \<Rightarrow> string" where
  "percentSaved originalSize processedSize =
     (if originalSize = 0 then (if processedSize = 0 then ''NaN'' else ''-Infinity'')
      else toFixed2 (dvalue (percentNumber originalSize processedSize)))"

definition clampedSaved :: "nat \<Rightarrow> nat \<Rightarrow> string" where
  "clampedSaved originalSize processedSize =
     (if originalSize > processedSize then percentSaved originalSize processedSize else ''0.00'')"

subsection \<open>Results, encoders and options of the image services\<close>

text \<open>
  An entry of \<open>processedFiles\<close> (\<open>format\<close>, \<open>filename\<close>, \<open>size\<close>, \<open>savings\<close>) and an
  entry of the result list: \<open>Success name originalSize processedFiles processor\<close> is
  \<open>{name, originalSize, processedFiles, status: 'success', processor?}\<close> and
  \<open>Failure name message\<close> is \<open>{name, status: 'error', error}\<close>.
\<close>

record processedFile =
  fmt :: string
  filename :: string
  bytes :: nat
  savings :: string

datatype fileResult =
    Success string nat "processedFile list" "string option"
  | Failure string string



text \<open>
  The external tools under the options of the batch. \<open>sharpSvg p f\<close> is the sharp
  pipeline of the SVG-to-raster pass on the stored file \<open>p\<close> for the format \<open>f\<close>
  (density 300, resize, encode, \<open>toFile\<close>, \<open>stat\<close> of the output): \<open>Inl\<close> the message of
  what it throws, \<open>Inr\<close> the size of the file it wrote. \<open>sharpRaster\<close> is the pipeline
  of the raster pass, \<open>convert\<close> the ImageMagick command, \<open>svgo\<close> reading and optimising
  an SVG. \<open>convertVersion n\<close> is the outcome of the \<open>n\<close>-th probe \<open>convert -version\<close>
  of the batch. A tool that throws writes nothing.
\<close>

record encoders =
  sharpSvg :: "string \<Rightarrow> string \<Rightarrow> string + nat"
  sharpRaster :: "string \<Rightarrow> string \<Rightarrow> string + nat"
  convert :: "string \<Rightarrow> string \<Rightarrow> string + nat"
  svgo :: "string \<Rightarrow> string + nat"
  convertVersion :: "nat \<Rightarrow> bool"

text \<open>
  The options the orchestrator itself reads, after destructuring with defaults
  (\<open>useImageMagick\<close> defaults to \<open>DISABLE_IMAGEMAGICK !== 'true'\<close>).
\<close>

record imageOptions =
  formats :: "string list"
  useImageMagick :: bool

definition writeFile :: "nat directory \<Rightarrow> string \<Rightarrow> nat \<Rightarrow> nat directory" where
  "writeFile fs p n = remove_entry p fs @ [(p, n)]"

text \<open>
  \<open>safeUnlink(filePath, retries = 3, delay = 100)\<close> as imageProcessor.js, svgProcessor.js
  and imageMagickProcessor.js define it: no \<open>ENOENT\<close> case, no return value, and after
  the last busy attempt a warning only. Every caller uses the defaults.
\<close>

function safeUnlink_service_loop ::
  "(string \<Rightarrow> nat \<Rightarrow> fault option) \<Rightarrow> 'a directory \<Rightarrow> string \<Rightarrow> nat \<Rightarrow> nat \<Rightarrow> nat \<Rightarrow>
     (jserror + unit) \<times> 'a directory" where
  "safeUnlink_service_loop lk fs filePath retries delay i =
     (if i < retries then
        (case unlink lk fs filePath i of
           Inr fs' \<Rightarrow> (Inr (), fs')
         | Inl err \<Rightarrow>
             if code err = EPERM \<or> code err = EBUSY
             then safeUnlink_service_loop lk fs filePath retries delay (i + 1)
             else (Inl err, fs))
      else (Inr (), fs))"
  by pat_completeness auto
termination
  by (relation "measure (\<lambda>(lk, fs, filePath, retries, delay, i). retries - i)") auto

declare safeUnlink_service_loop.simps [simp del]

definition safeUnlink_service ::
  "(string \<Rightarrow> nat \<Rightarrow> fault option) \<Rightarrow> 'a directory \<Rightarrow> string \<Rightarrow> (jserror + unit) \<times> 'a directory" where
  "safeUnlink_service lk fs filePath = safeUnlink_service_loop lk fs filePath 3 100 0"

subsection \<open>The batch orchestrator\<close>

text \<open>
  The loop over the requested formats of one file, shared by the three raster
  pipelines: allocate the output name, run the encoder \<open>enc\<close>, record the artifact with
  the savings \<open>sav\<close>. It stops at the first format whose encoder throws; what earlier
  formats wrote stays in the directory.
\<close>

fun encodeFormats ::
  "(string \<Rightarrow> string \<Rightarrow> string + nat) \<Rightarrow> (nat \<Rightarrow> nat \<Rightarrow> string) \<Rightarrow> upfile \<Rightarrow> nat \<Rightarrow>
     string list \<Rightarrow> nat directory \<Rightarrow> (string + processedFile list) \<times> nat directory" where
  "encodeFormats enc sav file originalSize [] fs = (Inr [], fs)"
| "encodeFormats enc sav file originalSize (fm # rest) fs =
     (let outputFilename = getUniqueFilename (map fst fs) (baseFilename file) fm in
      case enc (path file) fm of
        Inl msg \<Rightarrow> (Inl msg, fs)
      | Inr processedSize \<Rightarrow>
          (case encodeFormats enc sav file originalSize rest
                  (writeFile fs outputFilename processedSize) of
             (Inl msg, fs') \<Rightarrow> (Inl msg, fs')
           | (Inr processedFiles, fs') \<Rightarrow>
               (Inr (\<lparr>fmt = fm, filename = outputFilename, bytes = processedSize,
                       savings = sav originalSize processedSize\<rparr> # processedFiles), fs')))"

definition isRasterFormat :: "string \<Rightarrow> bool" where
  "isRasterFormat f = (f \<in> set [''webp'', ''avif'', ''jpg'', ''jpeg'', ''png''])"

definition hasRasterFormats :: "imageOptions \<Rightarrow> bool" where
  "hasRasterFormats opts = list_ex isRasterFormat (formats opts)"

definition hasSvgFormat :: "imageOptions \<Rightarrow> bool" where
  "hasSvgFormat opts = (''svg'' \<in> set (formats opts))"

text \<open>
  The bodies of the four per-file \<open>try\<close> blocks: the SVG-to-raster pass of
  \<open>processImages\<close>, \<open>optimizeSVGs\<close>, \<open>processWithImageMagick\<close> and the raster pass of
  \<open>processImages\<close>. Each returns what it pushes onto \<open>results\<close> and the directory
  afterwards.
\<close>

definition svgToRaster ::
  "encoders \<Rightarrow> osFaults \<Rightarrow> imageOptions \<Rightarrow> upfile \<Rightarrow> nat directory \<Rightarrow>
     fileResult list \<times> nat directory" where
  "svgToRaster E F opts file fs =
     (case stat F fs (path file) of
        Inl err \<Rightarrow> ([Failure (originalname file) (message err)], fs)
      | Inr originalSize \<Rightarrow>
          (case encodeFormats (sharpSvg E) clampedSaved file originalSize
                  (filter isRasterFormat (formats opts)) fs of
             (Inl msg, fs1) \<Rightarrow> ([Failure (originalname file) msg], fs1)
           | (Inr processedFiles, fs1) \<Rightarrow>
               (case (if \<not> hasSvgFormat opts then safeUnlink_service (lock F) fs1 (path file)
                      else (Inr (), fs1)) of
                  (Inl err, fs2) \<Rightarrow> ([Failure (originalname file) (message err)], fs2)
                | (Inr u, fs2) \<Rightarrow>
                    (if length processedFiles > 0
                     then [Success (originalname file) originalSize processedFiles None]
                     else [], fs2))))"

definition optimizeSVG ::
  "encoders \<Rightarrow> osFaults \<Rightarrow> upfile \<Rightarrow> nat directory \<Rightarrow> fileResult list \<times> nat directory" where
  "optimizeSVG E F file fs =
     (case stat F fs (path file) of
        Inl err \<Rightarrow> ([Failure (originalname file) (message err)], fs)
      | Inr originalSize \<Rightarrow>
          (case svgo E (path file) of
             Inl msg \<Rightarrow> ([Failure (originalname file) msg], fs)
           | Inr optimizedSize \<Rightarrow>
               (let outputFilename = getUniqueFilename (map fst fs) (baseFilename file) ''svg'';
                    fs1 = writeFile fs outputFilename optimizedSize
                in case (if path file \<noteq> outputFilename
                         then safeUnlink_service (lock F) fs1 (path file)
                         else (Inr (), fs1)) of
                     (Inl err, fs2) \<Rightarrow> ([Failure (originalname file) (message err)], fs2)
                   | (Inr u, fs2) \<Rightarrow>
                       ([Success (originalname file) originalSize
                           [\<lparr>fmt = ''svg'', filename = outputFilename, bytes = optimizedSize,
                             savings = percentSaved originalSize optimizedSize\<rparr>] None], fs2))))"

definition magickFile ::
  "encoders \<Rightarrow> osFaults \<Rightarrow> imageOptions \<Rightarrow> upfile \<Rightarrow> nat directory \<Rightarrow>
     fileResult list \<times> nat directory" where
  "magickFile E F opts file fs =
     (case stat F fs (path file) of
        Inl err \<Rightarrow> ([Failure (originalname file) (message err)], fs)
      | Inr originalSize \<Rightarrow>
          (case encodeFormats (convert E) percentSaved file originalSize (formats opts) fs of
             (Inl msg, fs1) \<Rightarrow> ([Failure (originalname file) msg], fs1)
           | (Inr processedFiles, fs1) \<Rightarrow>
               (case safeUnlink_service (lock F) fs1 (path file) of
                  (Inl err, fs2) \<Rightarrow> ([Failure (originalname file) (message err)], fs2)
                | (Inr u, fs2) \<Rightarrow>
                    ([Success (originalname file) originalSize processedFiles
                        (Some ''ImageMagick'')], fs2))))"

definition rasterFile ::
  "encoders \<Rightarrow> osFaults \<Rightarrow> imageOptions \<Rightarrow> upfile \<Rightarrow> nat directory \<Rightarrow>
     fileResult list \<times> nat directory" where
  "rasterFile E F opts file fs =
     (case stat F fs (path file) of
        Inl err \<Rightarrow> ([Failure (originalname file) (message err)], fs)
      | Inr originalSize \<Rightarrow>
          (case encodeFormats (sharpRaster E) percentSaved file originalSize
                  (filter (\<lambda>f. f \<noteq> ''svg'') (formats opts)) fs of
             (Inl msg, fs1) \<Rightarrow> ([Failure (originalname file) msg], fs1)
           | (Inr processedFiles, fs1) \<Rightarrow>
               (case safeUnlink_service (lock F) fs1 (path file) of
                  (Inl err, fs2) \<Rightarrow> ([Failure (originalname file) (message err)], fs2)
                | (Inr u, fs2) \<Rightarrow>
                    ([Success (originalname file) originalSize processedFiles None], fs2))))"

text \<open>A \<open>for (const file of files)\<close> loop around a body.\<close>

fun forEachFile ::
  "(upfile \<Rightarrow> nat directory \<Rightarrow> fileResult list \<times> nat directory) \<Rightarrow> upfile list \<Rightarrow> nat directory \<Rightarrow>
     fileResult list \<times> nat directory" where
  "forEachFile body [] fs = ([], fs)"
| "forEachFile body (file # files) fs =
     (case body file fs of
        (pushed, fs1) \<Rightarrow>
          (case forEachFile body files fs1 of (results, fs2) \<Rightarrow> (pushed @ results, fs2)))"

definition optimizeSVGs ::
  "encoders \<Rightarrow> osFaults \<Rightarrow> upfile list \<Rightarrow> nat directory \<Rightarrow> fileResult list \<times> nat directory" where
  "optimizeSVGs E F files fs = forEachFile (optimizeSVG E F) files fs"

definition processWithImageMagick ::
  "encoders \<Rightarrow> osFaults \<Rightarrow> nat \<Rightarrow> imageOptions \<Rightarrow> upfile list \<Rightarrow> nat directory \<Rightarrow>
     string + fileResult list \<times> nat directory" where
  "processWithImageMagick E F probe opts files fs =
     (if \<not> convertVersion E probe then Inl ''ImageMagick is not installed on this system''
      else Inr (forEachFile (magickFile E F opts) files fs))"

text \<open>The partition of the batch at the head of \<open>processImages\<close>.\<close>

definition svgFiles :: "upfile list \<Rightarrow> upfile list" where
  "svgFiles files = filter isSvg files"

definition imageMagickFiles :: "imageOptions \<Rightarrow> upfile list \<Rightarrow> upfile list" where
  "imageMagickFiles opts files =
     (if useImageMagick opts then filter (\<lambda>f. shouldUseImageMagick (originalname f)) files
      else [])"

definition rasterFiles :: "imageOptions \<Rightarrow> upfile list \<Rightarrow> upfile list" where
  "rasterFiles opts files =
     filter (\<lambda>f. \<not> isSvg f \<and>
                 (if useImageMagick opts then \<not> shouldUseImageMagick (originalname f) else True))
       files"

text \<open>
  \<open>processImages(files, options)\<close>: the SVG block (\<open>svgPhase\<close>), the ImageMagick block
  with its fallback onto \<open>rasterFiles\<close>, and the raster loop.
\<close>

definition svgPhase ::
  "encoders \<Rightarrow> osFaults \<Rightarrow> imageOptions \<Rightarrow> upfile list \<Rightarrow> nat directory \<Rightarrow>
     fileResult list \<times> nat directory" where
  "svgPhase E F opts files fs =
     (if length (svgFiles files) > 0 then
        (case (if hasRasterFormats opts
               then forEachFile (svgToRaster E F opts) (svgFiles files) fs
               else ([], fs)) of
           (results, fs1) \<Rightarrow>
             (if hasSvgFormat opts then
                (case optimizeSVGs E F (svgFiles files) fs1 of
                   (svgResults, fs2) \<Rightarrow> (results @ svgResults, fs2))
              else (results, fs1)))
      else ([], fs))"

definition processImages ::
  "encoders \<Rightarrow> osFaults \<Rightarrow> imageOptions \<Rightarrow> upfile list \<Rightarrow> nat directory \<Rightarrow>
     fileResult list \<times> nat directory" where
  "processImages E F opts files fs =
     (case svgPhase E F opts files fs of
        (results, fs1) \<Rightarrow>
          (case (if length (imageMagickFiles opts files) > 0 then
                   (if convertVersion E 0 then
                      (case processWithImageMagick E F 1 opts (imageMagickFiles opts files) fs1 of
                         Inr (imageMagickResults, fs2) \<Rightarrow>
                           (results @ imageMagickResults, rasterFiles opts files, fs2)
                       | Inl msg \<Rightarrow>
                           (results, rasterFiles opts files @ imageMagickFiles opts files, fs1))
                    else (results, rasterFiles opts files @ imageMagickFiles opts files, fs1))
                 else (results, rasterFiles opts files, fs1)) of
             (results2, rasterFiles2, fs3) \<Rightarrow>
               (case forEachFile (rasterFile E F opts) rasterFiles2 fs3 of
                  (rasterResults, fs4) \<Rightarrow> (results2 @ rasterResults, fs4))))"

subsection \<open>What a per-file pipeline reports\<close>

text \<open>
  Writes go to names the allocator has just found absent, so a loop over formats never
  touches an entry that is already there.
\<close>

lemma map_of_writeFile: "map_of (writeFile fs n s) p = (if p = n then Some s else map_of fs p)"
  by (simp add: writeFile_def map_of_append map_of_remove_entry map_add_def split: option.splits)

lemma fresh_not_mapped: "map_of fs (getUniqueFilename (map fst fs) b f) = None"
  using getUniqueFilename_fresh[of "map fst fs" b f] by (simp add: map_of_eq_None_iff)


text \<open>
  \<open>thrown\<close> reads the error out of a result. \<open>encodeError\<close> is the message of the first
  format whose encoder throws; \<open>unlinkError\<close> is the error the services' \<open>safeUnlink\<close>
  throws on a file that exists: the first fault, within the three attempts, that is
  neither \<open>EBUSY\<close> nor \<open>EPERM\<close>.
\<close>

fun thrown :: "'e + 'a \<Rightarrow> 'e option" where
  "thrown (Inl e) = Some e"
| "thrown (Inr v) = None"



lemma encodeFormats_artifacts:
  "fst (encodeFormats enc sav file n fmts fs) = Inr arts \<Longrightarrow>
   map fmt arts = fmts \<and> list_all (\<lambda>a. savings a = sav n (bytes a)) arts"
proof (induction fmts arbitrary: fs arts)
  case Nil
  then show ?case by auto
next
  case (Cons fm fmts)
  show ?case
  proof (cases "enc (path file) fm")
    case (Inl msg)
    with Cons.prems show ?thesis by simp
  next
    case (Inr sz)
    let ?fs1 = "writeFile fs (getUniqueFilename (map fst fs) (baseFilename file) fm) sz"
    obtain r fs2 where e: "encodeFormats enc sav file n fmts ?fs1 = (r, fs2)"
      by (cases "encodeFormats enc sav file n fmts ?fs1") auto
    show ?thesis
    proof (cases r)
      case (Inl msg)
      with Cons.prems Inr e show ?thesis by (simp add: Let_def)
    next
      case r: (Inr rest)
      with e have "fst (encodeFormats enc sav file n fmts ?fs1) = Inr rest" by simp
      from Cons.IH[OF this] Cons.prems Inr e r show ?thesis
        by (auto simp: Let_def)
    qed
  qed
qed

fun unlinkErrorFrom ::
  "(string \<Rightarrow> nat \<Rightarrow> fault option) \<Rightarrow> string \<Rightarrow> nat \<Rightarrow> nat \<Rightarrow> jserror option" where
  "unlinkErrorFrom lk p 0 i = None"
| "unlinkErrorFrom lk p (Suc n) i =
     (case lk p i of
        None \<Rightarrow> None
      | Some f \<Rightarrow> if retryable (Some f) then unlinkErrorFrom lk p n (i + 1)
                  else Some (fault_error f))"

definition unlinkError :: "(string \<Rightarrow> nat \<Rightarrow> fault option) \<Rightarrow> string \<Rightarrow> jserror option" where
  "unlinkError lk p = unlinkErrorFrom lk p 3 0"

lemma safeUnlink_service_loop_thrown:
  "map_of fs p \<noteq> None \<Longrightarrow> r - i = n \<Longrightarrow>
   thrown (fst (safeUnlink_service_loop lk fs p r d i)) = unlinkErrorFrom lk p n i"
proof (induction n arbitrary: i)
  case 0
  then show ?case by (subst safeUnlink_service_loop.simps) simp
next
  case (Suc n)
  then have i: "i < r" by simp
  show ?case
  proof (cases "lk p i")
    case None
    with Suc.prems i show ?thesis
      by (subst safeUnlink_service_loop.simps) (auto simp: unlink_def)
  next
    case (Some f)
    have "thrown (fst (safeUnlink_service_loop lk fs p r d (i + 1))) =
          unlinkErrorFrom lk p n (i + 1)"
      using Suc.prems by (intro Suc.IH) auto
    with Some Suc.prems i show ?thesis
      by (subst safeUnlink_service_loop.simps)
         (cases f; auto simp: unlink_def code_def retryable_def)
  qed
qed

lemma safeUnlink_service_thrown:
  "map_of fs p \<noteq> None \<Longrightarrow> thrown (fst (safeUnlink_service lk fs p)) = unlinkError lk p"
  unfolding safeUnlink_service_def unlinkError_def
  by (rule safeUnlink_service_loop_thrown) simp_all












text \<open>Each pipeline, run on a file that is present, pushes exactly the expected entry.\<close>

lemma stat_present:
  "map_of fs p = Some v \<Longrightarrow>
   stat F fs p = (case statFault F p of Some err \<Rightarrow> Inl err | None \<Rightarrow> Inr v)"
  by (simp add: stat_def split: option.splits)














lemma magick_not_svg: "shouldUseImageMagick (originalname f) \<Longrightarrow> \<not> isSvg f"
  by (auto simp: shouldUseImageMagick_def isSvg_def IMAGEMAGICK_PREFERRED_FORMATS_def)














subsection \<open>Claims on processImages\<close>


text \<open>
  A concrete set of tools: sharp rasterises any SVG to 5000 bytes, fails on the upload
  stored as \<open>files-2.png\<close> and encodes every other raster file to 150 bytes; ImageMagick
  is installed.
\<close>

definition tools :: encoders where
  "tools =
     \<lparr>sharpSvg = (\<lambda>p f. Inr 5000),
      sharpRaster = (\<lambda>p f. if p = ''files-2.png''
                             then Inl ''Input file contains unsupported image format''
                             else Inr 150),
      convert = (\<lambda>p f. Inr 70), svgo = (\<lambda>p. Inr 800), convertVersion = (\<lambda>n. True)\<rparr>"

lemma svg_names [simp]:
  "isSvg \<lparr>originalname = ''logo.svg'', path = p\<rparr>"
  "\<not> isSvg \<lparr>originalname = ''photo.png'', path = p\<rparr>"
  "\<not> isSvg \<lparr>originalname = ''pic.jpg'', path = p\<rparr>"
  "\<not> isSvg \<lparr>originalname = ''scan.tiff'', path = p\<rparr>"
  "\<not> shouldUseImageMagick ''logo.svg''"
  "\<not> shouldUseImageMagick ''photo.png''"
  "\<not> shouldUseImageMagick ''pic.jpg''"
  "shouldUseImageMagick ''scan.tiff''"
  by (simp_all add: isSvg_def shouldUseImageMagick_def IMAGEMAGICK_PREFERRED_FORMATS_def
      toLowerCase_def extname_def lowerChar_def)




lemma safeUnlink_service_snd:
  assumes m: "map_of fs p = Some v"
  shows "snd (safeUnlink_service lk fs p) = (if deletable lk p then remove_entry p fs else fs)"
proof -
  have n: "(1::nat) = Suc 0" "(2::nat) = Suc (Suc 0)" by simp_all
  show ?thesis unfolding safeUnlink_service_def deletable_def n
    by (cases "lk p 0"; cases "lk p (Suc 0)"; cases "lk p (Suc (Suc 0))")
       (auto simp: safeUnlink_service_loop.simps[of _ _ _ 3] unlink_def code_def retryable_def m
             split: fault.splits)
qed

lemma svg_alone:
  assumes "isSvg f"
  shows "svgFiles [f] = [f]" "imageMagickFiles opts [f] = []" "rasterFiles opts [f] = []"
  using assms magick_not_svg[of f]
  by (auto simp: svgFiles_def imageMagickFiles_def rasterFiles_def)

text \<open>
  C2 (amended). One SVG upload with the formats \<open>webp\<close> and \<open>svg\<close>, every step
  succeeding: the raster pass pushes a first entry with the single artifact \<open>webp\<close> and
  leaves the source in the directory; the optimiser then pushes a second entry, of the
  same name, with the single artifact \<open>svg\<close>. Both artifacts are in the directory
  before the source is unlinked, and the source is gone afterwards exactly when unlink
  gets through within its three attempts.
\<close>

theorem svg_to_webp_and_svg:
  assumes "isSvg f" and "formats opts = [''webp'', ''svg'']"
    and "map_of fs (path f) = Some n" and "statFault F (path f) = None"
    and "sharpSvg E (path f) ''webp'' = Inr a" and "svgo E (path f) = Inr b"
    and "unlinkError (lock F) (path f) = None"
  shows
   "(let webp = getUniqueFilename (map fst fs) (baseFilename f) ''webp'';
         fs1 = writeFile fs webp a;
         svg = getUniqueFilename (map fst fs1) (baseFilename f) ''svg'';
         fs2 = writeFile fs1 svg b;
         first = Success (originalname f) n
                   [\<lparr>fmt = ''webp'', filename = webp, bytes = a, savings = clampedSaved n a\<rparr>] None;
         second = Success (originalname f) n
                   [\<lparr>fmt = ''svg'', filename = svg, bytes = b, savings = percentSaved n b\<rparr>] None
     in forEachFile (svgToRaster E F opts) (svgFiles [f]) fs = ([first], fs1) \<and>
        map_of fs1 (path f) = Some n \<and>
        processImages E F opts [f] fs =
          ([first, second],
           if deletable (lock F) (path f) then remove_entry (path f) fs2 else fs2) \<and>
        map_of fs2 webp = Some a \<and> map_of fs2 svg = Some b \<and> map_of fs2 (path f) = Some n)"
proof -
  let ?webp = "getUniqueFilename (map fst fs) (baseFilename f) ''webp''"
  let ?fs1 = "writeFile fs ?webp a"
  let ?svg = "getUniqueFilename (map fst ?fs1) (baseFilename f) ''svg''"
  let ?fs2 = "writeFile ?fs1 ?svg b"
  from assms(3) fresh_not_mapped[of fs "baseFilename f" "''webp''"] have n1: "path f \<noteq> ?webp"
    by auto
  with assms(3) have m1: "map_of ?fs1 (path f) = Some n" by (simp add: map_of_writeFile)
  from m1 fresh_not_mapped[of ?fs1 "baseFilename f" "''svg''"] have n2: "path f \<noteq> ?svg"
    by auto
  with m1 have m2: "map_of ?fs2 (path f) = Some n" by (simp add: map_of_writeFile)
  have "map_of ?fs1 ?webp = Some a" by (simp add: map_of_writeFile)
  with fresh_not_mapped[of ?fs1 "baseFilename f" "''svg''"] have n3: "?webp \<noteq> ?svg" by auto
  have w2: "map_of ?fs2 ?webp = Some a" "map_of ?fs2 ?svg = Some b"
    using n3 by (simp_all add: map_of_writeFile)
  have fm: "filter isRasterFormat (formats opts) = [''webp'']" "hasSvgFormat opts"
    "hasRasterFormats opts"
    using assms(2) by (simp_all add: isRasterFormat_def hasSvgFormat_def hasRasterFormats_def)
  have A: "forEachFile (svgToRaster E F opts) [f] fs =
      ([Success (originalname f) n
         [\<lparr>fmt = ''webp'', filename = ?webp, bytes = a, savings = clampedSaved n a\<rparr>] None], ?fs1)"
    using assms fm by (simp add: svgToRaster_def stat_present Let_def)
  obtain u fs3 where s: "safeUnlink_service (lock F) ?fs2 (path f) = (u, fs3)"
    by (cases "safeUnlink_service (lock F) ?fs2 (path f)") auto
  from safeUnlink_service_thrown[of ?fs2 "path f" "lock F"] m2 s assms(7)
  have u: "u = Inr ()" by (cases u) simp_all
  from safeUnlink_service_snd[OF m2, of "lock F"] s
  have f3: "fs3 = (if deletable (lock F) (path f) then remove_entry (path f) ?fs2 else ?fs2)"
    by simp
  have B: "optimizeSVG E F f ?fs1 =
      ([Success (originalname f) n
         [\<lparr>fmt = ''svg'', filename = ?svg, bytes = b, savings = percentSaved n b\<rparr>] None], fs3)"
    using assms m1 n2 s u by (simp add: optimizeSVG_def stat_present Let_def)
  have P: "processImages E F opts [f] fs =
      ([Success (originalname f) n
         [\<lparr>fmt = ''webp'', filename = ?webp, bytes = a, savings = clampedSaved n a\<rparr>] None,
        Success (originalname f) n
         [\<lparr>fmt = ''svg'', filename = ?svg, bytes = b, savings = percentSaved n b\<rparr>] None], fs3)"
    using A B fm svg_alone[OF assms(1)]
    by (simp add: processImages_def svgPhase_def optimizeSVGs_def)
  from A m1 P f3 w2 m2 svg_alone(1)[OF assms(1)] show ?thesis
    by (simp add: Let_def)
qed

text \<open>Evaluation of the scenario on concrete tools.\<close>

lemma floor_numeral_rat [simp]: "\<lfloor>(numeral a :: rat) / numeral b\<rfloor> = numeral a div numeral b"
  using floor_divide_of_int_eq[of "numeral a" "numeral b", where 'a = rat] by simp

lemma stat_logo: "stat quiet [(''files-1.svg'', 1000::nat)] ''files-1.svg'' = Inr 1000"
  by (simp add: stat_def quiet_def)

lemma svgToRaster_logo: "svgToRaster tools quiet \<lparr>formats = [''webp'', ''svg''], useImageMagick = True\<rparr>
     \<lparr>originalname = ''logo.svg'', path = ''files-1.svg''\<rparr> [(''files-1.svg'', 1000)] =
   ([Success ''logo.svg'' 1000
       [\<lparr>fmt = ''webp'', filename = ''logo.webp'', bytes = 5000, savings = ''0.00''\<rparr>] None],
    [(''files-1.svg'', 1000), (''logo.webp'', 5000)])"
  by (simp add: svgToRaster_def stat_logo isRasterFormat_def hasSvgFormat_def tools_def Let_def
      getUniqueFilename_def getUniqueFilename_loop.simps access_def baseFilename_def
      basename_def extname_def writeFile_def remove_entry_def clampedSaved_def)

lemma percentNumber_1000_800:
  "percentNumber 1000 800 = \<lparr>negative = False, significand = 5629499534213120, exponent = - 48\<rparr>"
proof -
  have n1: "normalise 200 1000 0 = (7205759403792793600, 1000, - 55)"
    by (simp add: normalise.simps)
  have r1: "roundHalfEven 7205759403792793600 1000 = 7205759403792794"
    by (simp add: roundHalfEven_def Let_def)
  have d: "divide_int 200 1000 =
      \<lparr>negative = False, significand = 7205759403792794, exponent = - 55\<rparr>"
    by (simp add: divide_int_def nearest_def n1 r1)
  have n2: "normalise 720575940379279400 (Suc 0) (- 55) = (720575940379279400, 128, - 48)"
    by (simp add: normalise.simps)
  have r2: "roundHalfEven 720575940379279400 128 = 5629499534213120"
    by (simp add: roundHalfEven_def Let_def)
  show ?thesis
    by (simp add: percentNumber_def d times_int_def nearest_def n2 r2)
qed

lemma percentSaved_1000_800: "percentSaved 1000 800 = ''20.00''"
  by (simp add: percentSaved_def percentNumber_1000_800 dvalue_def toFixed2_def hundredths_def decimal.simps
      digit_def Let_def)

lemma optimizeSVG_logo: "optimizeSVG tools quiet
     \<lparr>originalname = ''logo.svg'', path = ''files-1.svg''\<rparr> [(''files-1.svg'', 1000), (''logo.webp'', 5000)] =
   ([Success ''logo.svg'' 1000
       [\<lparr>fmt = ''svg'', filename = ''logo.svg'', bytes = 800, savings = ''20.00''\<rparr>] None],
    [(''logo.webp'', 5000), (''logo.svg'', 800)])"
  by (simp add: optimizeSVG_def stat_def quiet_def tools_def Let_def getUniqueFilename_def
      getUniqueFilename_loop.simps access_def baseFilename_def basename_def extname_def
      writeFile_def remove_entry_def percentSaved_1000_800
      safeUnlink_service_def safeUnlink_service_loop.simps unlink_def)


text \<open>
  The scenario of the specification yields two entries with one artifact each, not one
  entry with two artifacts.
\<close>

theorem svg_to_webp_and_svg_counterexample:
  "processImages tools quiet \<lparr>formats = [''webp'', ''svg''], useImageMagick = True\<rparr>
      [\<lparr>originalname = ''logo.svg'', path = ''files-1.svg''\<rparr>] [(''files-1.svg'', 1000)] =
   ([Success ''logo.svg'' 1000
       [\<lparr>fmt = ''webp'', filename = ''logo.webp'', bytes = 5000, savings = ''0.00''\<rparr>] None,
     Success ''logo.svg'' 1000
       [\<lparr>fmt = ''svg'', filename = ''logo.svg'', bytes = 800, savings = ''20.00''\<rparr>] None],
    [(''logo.webp'', 5000), (''logo.svg'', 800)])"
  by (simp add: processImages_def svgPhase_def optimizeSVGs_def svgFiles_def imageMagickFiles_def
      rasterFiles_def hasRasterFormats_def hasSvgFormat_def isRasterFormat_def svgToRaster_logo optimizeSVG_logo)


theorem svg_to_webp_and_svg_witness:
  "forEachFile (svgToRaster tools quiet \<lparr>formats = [''webp'', ''svg''], useImageMagick = True\<rparr>)
      [\<lparr>originalname = ''logo.svg'', path = ''files-1.svg''\<rparr>] [(''files-1.svg'', 1000)] =
   ([Success ''logo.svg'' 1000
       [\<lparr>fmt = ''webp'', filename = ''logo.webp'', bytes = 5000, savings = ''0.00''\<rparr>] None],
    [(''files-1.svg'', 1000), (''logo.webp'', 5000)]) \<and>
   map_of [(''files-1.svg'', 1000), (''logo.webp'', 5000::nat)] ''files-1.svg'' = Some 1000 \<and>
   snd (processImages tools quiet \<lparr>formats = [''webp'', ''svg''], useImageMagick = True\<rparr>
      [\<lparr>originalname = ''logo.svg'', path = ''files-1.svg''\<rparr>] [(''files-1.svg'', 1000)]) =
   [(''logo.webp'', 5000), (''logo.svg'', 800)]"
proof -
  let ?f = "\<lparr>originalname = ''logo.svg'', path = ''files-1.svg''\<rparr>"
  let ?opts = "\<lparr>formats = [''webp'', ''svg''], useImageMagick = True\<rparr>"
  have w: "getUniqueFilename [''files-1.svg''] (baseFilename ?f) ''webp'' = ''logo.webp''"
    by (simp add: getUniqueFilename_def getUniqueFilename_loop.simps access_def baseFilename_def
        basename_def extname_def)
  have s: "getUniqueFilename [''files-1.svg'', ''logo.webp''] (baseFilename ?f) ''svg''
             = ''logo.svg''"
    by (simp add: getUniqueFilename_def getUniqueFilename_loop.simps access_def baseFilename_def
        basename_def extname_def)
  have d: "deletable (lock quiet) ''files-1.svg''"
    by (simp add: deletable_def quiet_def)
  have "isSvg ?f" "formats ?opts = [''webp'', ''svg'']"
    "map_of [(''files-1.svg'', 1000::nat)] (path ?f) = Some 1000"
    "statFault quiet (path ?f) = None" "sharpSvg tools (path ?f) ''webp'' = Inr 5000"
    "svgo tools (path ?f) = Inr 800" "unlinkError (lock quiet) (path ?f) = None"
    by (simp_all add: quiet_def tools_def unlinkError_def numeral_3_eq_3)
  from svg_to_webp_and_svg[OF this]
  show ?thesis
    by (simp add: Let_def w s d writeFile_def remove_entry_def clampedSaved_def svgFiles_def)
qed







lemma rasterFile_savings:
  "Success n s arts p \<in> set (fst (rasterFile E F opts f fs)) \<Longrightarrow>
   list_all (\<lambda>a. savings a = percentSaved s (bytes a)) arts"
proof -
  assume a: "Success n s arts p \<in> set (fst (rasterFile E F opts f fs))"
  let ?fmts = "filter (\<lambda>x. x \<noteq> ''svg'') (formats opts)"
  from a obtain m where m: "stat F fs (path f) = Inr m"
    by (cases "stat F fs (path f)") (auto simp: rasterFile_def)
  obtain r fs1 where e: "encodeFormats (sharpRaster E) percentSaved f m ?fmts fs = (r, fs1)"
    by (cases "encodeFormats (sharpRaster E) percentSaved f m ?fmts fs") auto
  from a m e have "r = Inr arts \<and> s = m"
    by (cases r) (auto simp: rasterFile_def split: prod.splits sum.splits)
  with e encodeFormats_artifacts[of "sharpRaster E" percentSaved f m ?fmts fs arts]
  show ?thesis by simp
qed

lemma magickFile_savings:
  "Success n s arts p \<in> set (fst (magickFile E F opts f fs)) \<Longrightarrow>
   list_all (\<lambda>a. savings a = percentSaved s (bytes a)) arts"
proof -
  assume a: "Success n s arts p \<in> set (fst (magickFile E F opts f fs))"
  let ?fmts = "formats opts"
  from a obtain m where m: "stat F fs (path f) = Inr m"
    by (cases "stat F fs (path f)") (auto simp: magickFile_def)
  obtain r fs1 where e: "encodeFormats (convert E) percentSaved f m ?fmts fs = (r, fs1)"
    by (cases "encodeFormats (convert E) percentSaved f m ?fmts fs") auto
  from a m e have "r = Inr arts \<and> s = m"
    by (cases r) (auto simp: magickFile_def split: prod.splits sum.splits)
  with e encodeFormats_artifacts[of "convert E" percentSaved f m ?fmts fs arts]
  show ?thesis by simp
qed

lemma svgToRaster_savings:
  "Success n s arts p \<in> set (fst (svgToRaster E F opts f fs)) \<Longrightarrow>
   list_all (\<lambda>a. savings a = clampedSaved s (bytes a)) arts"
proof -
  assume a: "Success n s arts p \<in> set (fst (svgToRaster E F opts f fs))"
  let ?fmts = "filter isRasterFormat (formats opts)"
  from a obtain m where m: "stat F fs (path f) = Inr m"
    by (cases "stat F fs (path f)") (auto simp: svgToRaster_def)
  obtain r fs1 where e: "encodeFormats (sharpSvg E) clampedSaved f m ?fmts fs = (r, fs1)"
    by (cases "encodeFormats (sharpSvg E) clampedSaved f m ?fmts fs") auto
  from a m e have "r = Inr arts \<and> s = m"
    by (cases r) (auto simp: svgToRaster_def split: prod.splits sum.splits if_splits)
  with e encodeFormats_artifacts[of "sharpSvg E" clampedSaved f m ?fmts fs arts]
  show ?thesis by simp
qed

lemma optimizeSVG_savings:
  "Success n s arts p \<in> set (fst (optimizeSVG E F f fs)) \<Longrightarrow>
   list_all (\<lambda>a. savings a = percentSaved s (bytes a)) arts"
  by (auto simp: optimizeSVG_def Let_def split: prod.splits sum.splits if_splits)

lemma normalise_range:
  "0 < a \<Longrightarrow> 0 < b \<Longrightarrow> normalise a b e = (a1, b1, e1) \<Longrightarrow>
   0 < b1 \<and> 2 ^ 52 * b1 \<le> a1 \<and> a1 < 2 ^ 53 * b1 \<and>
   (of_nat a1 / of_nat b1) * 2 powi e1 = (of_nat a / of_nat b :: rat) * 2 powi e"
proof (induction a b e rule: normalise.induct)
  case (1 a b e)
  show ?case
  proof (cases "a < 2 ^ 52 * b")
    case True
    with "1.prems" have n: "normalise (2 * a) b (e - 1) = (a1, b1, e1)"
      by (subst (asm) normalise.simps) simp
    from "1.prems" have "0 < 2 * a" by simp
    from "1.IH"(1)[OF _ True this "1.prems"(2) n] "1.prems"
    have r: "0 < b1 \<and> 2 ^ 52 * b1 \<le> a1 \<and> a1 < 2 ^ 53 * b1 \<and>
      (of_nat a1 / of_nat b1) * 2 powi e1 = (of_nat (2 * a) / of_nat b :: rat) * 2 powi (e - 1)"
      by simp
    have "(of_nat (2 * a) / of_nat b :: rat) * 2 powi (e - 1) = (of_nat a / of_nat b) * 2 powi e"
      by (simp add: power_int_diff)
    with r show ?thesis by simp
  next
    case False
    show ?thesis
    proof (cases "2 ^ 53 * b \<le> a")
      case True
      with False "1.prems" have n: "normalise a (2 * b) (e + 1) = (a1, b1, e1)"
        by (subst (asm) normalise.simps) simp
      from "1.prems" have "0 < 2 * b" by simp
      from "1.IH"(2)[OF _ False True "1.prems"(1) this n] "1.prems"
      have r: "0 < b1 \<and> 2 ^ 52 * b1 \<le> a1 \<and> a1 < 2 ^ 53 * b1 \<and>
        (of_nat a1 / of_nat b1) * 2 powi e1 = (of_nat a / of_nat (2 * b) :: rat) * 2 powi (e + 1)"
        by simp
      have "(of_nat a / of_nat (2 * b) :: rat) * 2 powi (e + 1) = (of_nat a / of_nat b) * 2 powi e"
        by (simp add: power_int_add)
      with r show ?thesis by simp
    next
      case t: False
      with False "1.prems" have "(a1, b1, e1) = (a, b, e)"
        by (subst (asm) normalise.simps) simp
      with False t "1.prems" show ?thesis by simp
    qed
  qed
qed

lemma roundHalfEven_near:
  assumes "0 < b"
  shows "a div b \<le> roundHalfEven a b \<and> roundHalfEven a b \<le> a div b + 1 \<and>
         \<bar>of_nat (roundHalfEven a b) - (of_nat a / of_nat b :: rat)\<bar> \<le> 1 / 2"
proof -
  have d: "a = (a div b) * b + a mod b" by simp
  from assms have bq: "(0::rat) < of_nat b" by simp
  have q: "(of_nat a / of_nat b :: rat) = of_nat (a div b) + of_nat (a mod b) / of_nat b"
  proof -
    have "(of_nat a :: rat) = of_nat (a div b) * of_nat b + of_nat (a mod b)"
      by (metis d of_nat_add of_nat_mult)
    with bq show ?thesis by (simp add: field_simps)
  qed
  have m: "a mod b < b" using assms by simp
  show ?thesis
  proof (cases "2 * (a mod b) < b")
    case True
    then have r: "roundHalfEven a b = a div b" by (simp add: roundHalfEven_def Let_def)
    from True have "(2::rat) * of_nat (a mod b) < of_nat b"
      by (metis of_nat_less_iff of_nat_mult of_nat_numeral)
    with bq have "(of_nat (a mod b) / of_nat b :: rat) \<le> 1 / 2" by (simp add: field_simps)
    moreover from bq have "(0::rat) \<le> of_nat (a mod b) / of_nat b" by simp
    ultimately show ?thesis using r q by simp
  next
    case False
    show ?thesis
    proof (cases "b < 2 * (a mod b)")
      case True
      with False have r: "roundHalfEven a b = a div b + 1" by (simp add: roundHalfEven_def Let_def)
      from True have "(of_nat b :: rat) < 2 * of_nat (a mod b)"
        by (metis of_nat_less_iff of_nat_mult of_nat_numeral)
      with bq have l: "(1 / 2 :: rat) \<le> of_nat (a mod b) / of_nat b" by (simp add: field_simps)
      from m have "(of_nat (a mod b) :: rat) < of_nat b" by simp
      with bq have "(of_nat (a mod b) / of_nat b :: rat) \<le> 1" by (simp add: field_simps)
      with l show ?thesis using r q by simp
    next
      case t: False
      with False have e: "2 * (a mod b) = b" by simp
      then have "(2::rat) * of_nat (a mod b) = of_nat b"
        by (metis of_nat_mult of_nat_numeral)
      with bq have h: "(of_nat (a mod b) / of_nat b :: rat) = 1 / 2" by (simp add: field_simps)
      from False t have "roundHalfEven a b = a div b \<or> roundHalfEven a b = a div b + 1"
        by (simp add: roundHalfEven_def Let_def)
      with h q show ?thesis by auto
    qed
  qed
qed

lemma abs_scale: "(0::rat) < p \<Longrightarrow> \<bar>x * p - y * p\<bar> = \<bar>x - y\<bar> * p"
proof -
  assume p: "0 < p"
  have "x * p - y * p = (x - y) * p" by (simp add: left_diff_distrib)
  with p show ?thesis by (simp add: abs_mult)
qed

lemma abs_negate: "\<bar>- x - - y\<bar> = \<bar>x - (y::rat)\<bar>"
  by simp

lemma nearest_zero: "dvalue (nearest neg 0 b e) = 0"
  by (simp add: nearest_def dvalue_def)

lemma nearest_spec:
  assumes "0 < a" "0 < b"
  shows "negative (nearest neg a b e) = neg \<and>
         2 ^ 52 \<le> significand (nearest neg a b e) \<and> significand (nearest neg a b e) \<le> 2 ^ 53 \<and>
         \<bar>of_nat (significand (nearest neg a b e)) * 2 powi exponent (nearest neg a b e)
            - (of_nat a / of_nat b :: rat) * 2 powi e\<bar>
           \<le> (of_nat a / of_nat b) * 2 powi e / 2 ^ 53"
proof -
  obtain a1 b1 e1 where n: "normalise a b e = (a1, b1, e1)" by (cases "normalise a b e") auto
  from normalise_range[OF assms n]
  have b1: "0 < b1" and lo: "2 ^ 52 * b1 \<le> a1" and hi: "a1 < 2 ^ 53 * b1"
    and v: "(of_nat a1 / of_nat b1) * 2 powi e1 = (of_nat a / of_nat b :: rat) * 2 powi e"
    by simp_all
  let ?r = "roundHalfEven a1 b1"
  from assms n have d: "nearest neg a b e = \<lparr>negative = neg, significand = ?r, exponent = e1\<rparr>"
    by (simp add: nearest_def)
  from roundHalfEven_near[OF b1, of a1]
  have r1: "a1 div b1 \<le> ?r" and r2: "?r \<le> a1 div b1 + 1"
    and r3: "\<bar>of_nat ?r - (of_nat a1 / of_nat b1 :: rat)\<bar> \<le> 1 / 2" by simp_all
  from lo b1 have "2 ^ 52 \<le> a1 div b1" by (simp add: less_eq_div_iff_mult_less_eq)
  with r1 have m1: "2 ^ 52 \<le> ?r" by simp
  from hi b1 have "a1 div b1 < 2 ^ 53" by (simp add: div_less_iff_less_mult mult.commute)
  with r2 have m2: "?r \<le> 2 ^ 53" by simp
  from b1 have bq: "(0::rat) < of_nat b1" by simp
  from lo have "(of_nat (2 ^ 52 * b1) :: rat) \<le> of_nat a1" by (simp only: of_nat_le_iff)
  then have "(2 ^ 52 :: rat) * of_nat b1 \<le> of_nat a1" by simp
  with bq have "(2 ^ 52 :: rat) \<le> of_nat a1 / of_nat b1" by (simp add: field_simps)
  then have "(1 / 2 :: rat) \<le> (of_nat a1 / of_nat b1) / 2 ^ 53" by simp
  with r3 have r4: "\<bar>of_nat ?r - (of_nat a1 / of_nat b1 :: rat)\<bar> \<le> (of_nat a1 / of_nat b1) / 2 ^ 53"
    by linarith
  have p: "(0::rat) < 2 powi e1" by simp
  have "\<bar>of_nat ?r * 2 powi e1 - (of_nat a1 / of_nat b1 :: rat) * 2 powi e1\<bar>
          = \<bar>of_nat ?r - (of_nat a1 / of_nat b1 :: rat)\<bar> * 2 powi e1"
    using p by (rule abs_scale)
  also have "\<dots> \<le> (of_nat a1 / of_nat b1) / 2 ^ 53 * 2 powi e1"
    by (rule mult_right_mono[OF r4 less_imp_le[OF p]])
  also have "\<dots> = (of_nat a1 / of_nat b1) * 2 powi e1 / 2 ^ 53" by simp
  finally have "\<bar>of_nat ?r * 2 powi e1 - (of_nat a / of_nat b :: rat) * 2 powi e\<bar>
          \<le> (of_nat a / of_nat b) * 2 powi e / 2 ^ 53"
    by (simp only: v)
  with d m1 m2 show ?thesis by simp
qed

text \<open>Rounding to a double: the relative error is at most 2^-53 and the sign is kept.\<close>

lemma nearest_value:
  assumes "0 < b"
  shows "\<bar>dvalue (nearest neg a b e) - (if neg then - 1 else 1) * (of_nat a / of_nat b) * 2 powi e\<bar>
           \<le> \<bar>(if neg then - 1 else 1) * (of_nat a / of_nat b :: rat) * 2 powi e\<bar> / 2 ^ 53"
proof (cases "a = 0")
  case True
  then show ?thesis by (simp add: nearest_zero)
next
  case False
  then have a: "0 < a" by simp
  let ?d = "nearest neg a b e"
  let ?v = "(of_nat a / of_nat b :: rat) * 2 powi e"
  from nearest_spec[OF a assms, of neg e]
  have n: "negative ?d = neg"
    and e: "\<bar>of_nat (significand ?d) * 2 powi exponent ?d - ?v\<bar> \<le> ?v / 2 ^ 53" by simp_all
  from a assms have "0 \<le> ?v" by simp
  then have av: "\<bar>?v\<bar> = ?v" by simp
  show ?thesis
  proof (cases neg)
    case True
    have "\<bar>- (of_nat (significand ?d) * 2 powi exponent ?d) - - ?v\<bar>
            = \<bar>of_nat (significand ?d) * 2 powi exponent ?d - ?v\<bar>" by (rule abs_negate)
    with e n True av show ?thesis by (simp add: dvalue_def)
  next
    case False
    with e n av show ?thesis by (simp add: dvalue_def)
  qed
qed

lemma nearest_sign:
  assumes "0 < a" "0 < b"
  shows "(dvalue (nearest neg a b e) < 0) = neg \<and> dvalue (nearest neg a b e) \<noteq> 0"
proof -
  let ?d = "nearest neg a b e"
  from nearest_spec[OF assms, of neg e]
  have n: "negative ?d = neg" and m: "0 < significand ?d" by simp_all
  define v :: rat where "v = of_nat (significand ?d) * 2 powi exponent ?d"
  have p: "(0::rat) < 2 powi exponent ?d" by simp
  from m have "(0::rat) < of_nat (significand ?d)" by simp
  with p have v: "0 < v" unfolding v_def by simp
  have "dvalue ?d = (if neg then - v else v)" by (simp add: dvalue_def n v_def)
  with v show ?thesis by (cases neg) simp_all
qed

lemma divide_int_value:
  assumes "y \<noteq> 0"
  shows "\<bar>dvalue (divide_int x y) - of_int x / of_int y\<bar> \<le> \<bar>of_int x / of_int y :: rat\<bar> / 2 ^ 53"
proof -
  let ?neg = "(x < 0) \<noteq> (y < 0)"
  from assms have b: "0 < nat \<bar>y\<bar>" by simp
  have ax: "(of_nat (nat \<bar>x\<bar>) :: rat) = \<bar>of_int x\<bar>" by simp
  have ay: "(of_nat (nat \<bar>y\<bar>) :: rat) = \<bar>of_int y\<bar>" by simp
  have "(if ?neg then - 1 else 1) * (\<bar>of_int x\<bar> / \<bar>of_int y\<bar> :: rat) = of_int x / of_int y"
    using assms by (cases "x < 0"; cases "y < 0") (simp_all add: abs_if)
  then have "(if ?neg then - 1 else 1) * (of_nat (nat \<bar>x\<bar>) / of_nat (nat \<bar>y\<bar>) :: rat) * 2 powi 0
        = of_int x / of_int y"
    by (simp only: ax ay power_int_0_right mult_1_right)
  with nearest_value[OF b, of ?neg "nat \<bar>x\<bar>" 0] show ?thesis
    by (simp only: divide_int_def)
qed

lemma times_int_value:
  "\<bar>dvalue (times_int d k) - dvalue d * of_int k\<bar> \<le> \<bar>dvalue d * of_int k\<bar> / 2 ^ 53"
proof -
  let ?neg = "negative d \<noteq> (k < 0)"
  have ak: "(of_nat (nat \<bar>k\<bar>) :: rat) = \<bar>of_int k\<bar>" by simp
  have "(if ?neg then - 1 else 1) * (\<bar>of_int k\<bar> :: rat) = (if negative d then - 1 else 1) * of_int k"
    by (cases "k < 0"; cases "negative d") (simp_all add: abs_if)
  then have "(if ?neg then - 1 else 1) * (of_nat (significand d) * \<bar>of_int k\<bar>) * 2 powi exponent d
        = (if negative d then - 1 else 1) * of_nat (significand d) * 2 powi exponent d * (of_int k :: rat)"
    by (simp add: mult.assoc mult.left_commute)
  then have "(if ?neg then - 1 else 1) * (of_nat (significand d * nat \<bar>k\<bar>) / of_nat 1 :: rat)
           * 2 powi exponent d = dvalue d * of_int k"
    by (simp only: dvalue_def of_nat_mult ak of_nat_1 div_by_1)
  with nearest_value[of 1 ?neg "significand d * nat \<bar>k\<bar>" "exponent d"] show ?thesis
    by (simp only: times_int_def)
qed

lemma percent_accuracy:
  assumes "0 < s"
  shows "\<bar>dvalue (percentNumber s b) - (of_nat s - of_nat b) / of_nat s * 100\<bar>
           \<le> \<bar>(of_nat s - of_nat b) / of_nat s * 100 :: rat\<bar> / 2 ^ 51"
proof -
  define q :: rat where "q = (of_nat s - of_nat b) / of_nat s"
  define q' where "q' = dvalue (divide_int (int s - int b) (int s))"
  define x' where "x' = dvalue (percentNumber s b)"
  define t :: rat where "t = 1 / 2 ^ 53"
  from assms have "int s \<noteq> 0" by simp
  from divide_int_value[OF this, of "int s - int b"]
  have e1: "\<bar>q' - q\<bar> \<le> \<bar>q\<bar> * t" by (simp add: q_def q'_def t_def)
  from times_int_value[of "divide_int (int s - int b) (int s)" 100]
  have e2: "\<bar>x' - q' * 100\<bar> \<le> \<bar>q' * 100\<bar> * t"
    by (simp add: x'_def q'_def percentNumber_def t_def)
  have t: "0 \<le> t" "t \<le> 1" by (simp_all add: t_def)
  have "\<bar>q'\<bar> \<le> \<bar>q\<bar> + \<bar>q' - q\<bar>" by linarith
  with e1 have "\<bar>q'\<bar> \<le> \<bar>q\<bar> + \<bar>q\<bar> * t" by linarith
  also have "\<dots> \<le> \<bar>q\<bar> + \<bar>q\<bar> * 1" using t by (intro add_left_mono mult_left_mono) simp_all
  finally have q2: "\<bar>q'\<bar> \<le> 2 * \<bar>q\<bar>" by simp
  have "\<bar>q' * 100\<bar> * t = \<bar>q'\<bar> * (100 * t)" by (simp add: abs_mult)
  also have "\<dots> \<le> (2 * \<bar>q\<bar>) * (100 * t)" using q2 t by (intro mult_right_mono) simp_all
  finally have e3: "\<bar>x' - q' * 100\<bar> \<le> 200 * \<bar>q\<bar> * t" using e2 by simp
  have "x' - q * 100 = (x' - q' * 100) + (q' - q) * 100" by (simp add: algebra_simps)
  then have "\<bar>x' - q * 100\<bar> \<le> \<bar>x' - q' * 100\<bar> + \<bar>(q' - q) * 100\<bar>"
    by (simp only: abs_triangle_ineq)
  moreover have "\<bar>(q' - q) * 100\<bar> = \<bar>q' - q\<bar> * 100" by (simp only: abs_mult abs_numeral)
  ultimately have "\<bar>x' - q * 100\<bar> \<le> \<bar>x' - q' * 100\<bar> + \<bar>q' - q\<bar> * 100"
    by (simp only:)
  with e3 e1 have "\<bar>x' - q * 100\<bar> \<le> 200 * \<bar>q\<bar> * t + \<bar>q\<bar> * t * 100" by linarith
  also have "\<dots> = \<bar>q * 100\<bar> * (3 * t)" by (simp add: abs_mult)
  also have "\<dots> \<le> \<bar>q * 100\<bar> * (1 / 2 ^ 51)"
    by (intro mult_left_mono) (simp_all add: t_def)
  finally show ?thesis by (simp add: x'_def q_def)
qed

lemma percent_sign:
  assumes "0 < s"
  shows "(dvalue (percentNumber s b) < 0) = (s < b) \<and> (dvalue (percentNumber s b) = 0) = (s = b)"
proof (cases "s = b")
  case True
  then show ?thesis
    by (simp add: percentNumber_def divide_int_def times_int_def nearest_def dvalue_def)
next
  case False
  let ?q = "divide_int (int s - int b) (int s)"
  from False have a: "0 < nat \<bar>int s - int b\<bar>" by simp
  from assms have b: "0 < nat \<bar>int s\<bar>" by simp
  from assms have neg: "((int s - int b < 0) \<noteq> (int s < 0)) = (s < b)" by auto
  from nearest_spec[OF a b, of "(int s - int b < 0) \<noteq> (int s < 0)" 0] neg
  have n: "negative ?q = (s < b)" and m: "0 < significand ?q" by (simp_all add: divide_int_def)
  from m have m': "0 < significand ?q * nat \<bar>100\<bar>" by simp
  from nearest_sign[OF m', of 1 "negative ?q \<noteq> ((100::int) < 0)" "exponent ?q"] n False
  show ?thesis by (simp add: percentNumber_def times_int_def)
qed

lemma hundredths_near: "\<bar>of_nat (hundredths x) / 100 - \<bar>x\<bar>\<bar> \<le> 1 / 200"
proof -
  define a where "a = \<bar>x\<bar>"
  define y where "y = a * 100 + 1 / 2"
  define z :: rat where "z = of_int \<lfloor>y\<rfloor>"
  have a: "0 \<le> a" by (simp add: a_def)
  then have "0 \<le> y" by (simp add: y_def)
  then have n: "(of_nat (nat \<lfloor>y\<rfloor>) :: rat) = z" by (simp add: z_def)
  have "z \<le> y" "y < z + 1" unfolding z_def by linarith+
  then have "\<bar>z / 100 - a\<bar> \<le> 1 / 200" unfolding y_def by linarith
  moreover have "of_nat (hundredths x) = z"
    unfolding hundredths_def using n by (simp add: y_def a_def)
  ultimately show ?thesis by (simp add: a_def)
qed

lemma percentSaved_negative:
  assumes "0 < s" and "s < b"
  shows "hd (percentSaved s b) = CHR ''-''"
  using assms percent_sign[of s b] by (simp add: percentSaved_def toFixed2_def Let_def)

text \<open>
  C10 (amended). For an artifact of the SVG-to-raster pass the savings are the
  percentage to two decimals when the produced file is smaller than the original and
  \<open>0.00\<close> otherwise. For an artifact of the raster pass, of ImageMagick and of the SVG
  optimiser the savings are the percentage to two decimals, unclamped: with a non-empty
  original and a larger produced file the rendering starts with a minus sign. The
  percentage is the double that JavaScript computes: it has the sign of the exact
  percentage and differs from it by a relative error of at most \<open>2^-51\<close>, and the two
  decimals are those of the hundredth nearest to that double.
\<close>

theorem savings_reported:
  "(Success n s arts p \<in> set (fst (svgToRaster E F opts f fs)) \<longrightarrow>
      list_all (\<lambda>a. savings a = (if s > bytes a then percentSaved s (bytes a) else ''0.00''))
        arts) \<and>
   (Success n s arts p \<in> set (fst (rasterFile E F opts f fs)) \<longrightarrow>
      list_all (\<lambda>a. savings a = percentSaved s (bytes a)) arts) \<and>
   (Success n s arts p \<in> set (fst (magickFile E F opts f fs)) \<longrightarrow>
      list_all (\<lambda>a. savings a = percentSaved s (bytes a)) arts) \<and>
   (Success n s arts p \<in> set (fst (optimizeSVG E F f fs)) \<longrightarrow>
      list_all (\<lambda>a. savings a = percentSaved s (bytes a)) arts) \<and>
   (0 < s \<longrightarrow>
      percentSaved s b = toFixed2 (dvalue (percentNumber s b)) \<and>
      \<bar>dvalue (percentNumber s b) - (of_nat s - of_nat b) / of_nat s * 100\<bar>
        \<le> \<bar>(of_nat s - of_nat b) / of_nat s * 100\<bar> / 2 ^ 51 \<and>
      (dvalue (percentNumber s b) < 0) = (s < b) \<and>
      \<bar>of_nat (hundredths (dvalue (percentNumber s b))) / 100 - \<bar>dvalue (percentNumber s b)\<bar>\<bar>
        \<le> 1 / 200) \<and>
   (0 < s \<and> s < b \<longrightarrow> hd (percentSaved s b) = CHR ''-'')"
  using svgToRaster_savings[of n s arts p E F opts f fs]
    rasterFile_savings[of n s arts p E F opts f fs]
    magickFile_savings[of n s arts p E F opts f fs]
    optimizeSVG_savings[of n s arts p E F f fs]
    percentSaved_negative[of s b] percent_accuracy[of s b] percent_sign[of s b]
    hundredths_near[of "dvalue (percentNumber s b)"]
  by (simp add: clampedSaved_def percentSaved_def)

lemma percentNumber_100_150:
  "percentNumber 100 150 = \<lparr>negative = True, significand = 7036874417766400, exponent = - 47\<rparr>"
proof -
  have n1: "normalise 50 100 0 = (450359962737049600, 100, - 53)"
    by (simp add: normalise.simps)
  have r1: "roundHalfEven 450359962737049600 100 = 4503599627370496"
    by (simp add: roundHalfEven_def Let_def)
  have d: "divide_int (- 50) 100 =
      \<lparr>negative = True, significand = 4503599627370496, exponent = - 53\<rparr>"
    by (simp add: divide_int_def nearest_def n1 r1)
  have n2: "normalise 450359962737049600 (Suc 0) (- 53) = (450359962737049600, 64, - 47)"
    by (simp add: normalise.simps)
  have r2: "roundHalfEven 450359962737049600 64 = 7036874417766400"
    by (simp add: roundHalfEven_def Let_def)
  show ?thesis
    by (simp add: percentNumber_def d times_int_def nearest_def n2 r2)
qed

lemma percentSaved_100_150: "percentSaved 100 150 = ''-50.00''"
  by (simp add: percentSaved_def percentNumber_100_150 dvalue_def toFixed2_def hundredths_def decimal.simps
      digit_def Let_def)

lemma percentNumber_160_119:
  "percentNumber 160 119 = \<lparr>negative = False, significand = 7212796278210559, exponent = - 48\<rparr>"
proof -
  have n1: "normalise 41 160 0 = (738590338888761344, 160, - 54)"
    by (simp add: normalise.simps)
  have r1: "roundHalfEven 738590338888761344 160 = 4616189618054758"
    by (simp add: roundHalfEven_def Let_def)
  have d: "divide_int 41 160 =
      \<lparr>negative = False, significand = 4616189618054758, exponent = - 54\<rparr>"
    by (simp add: divide_int_def nearest_def n1 r1)
  have n2: "normalise 461618961805475800 (Suc 0) (- 54) = (461618961805475800, 64, - 48)"
    by (simp add: normalise.simps)
  have r2: "roundHalfEven 461618961805475800 64 = 7212796278210559"
    by (simp add: roundHalfEven_def Let_def)
  show ?thesis
    by (simp add: percentNumber_def d times_int_def nearest_def n2 r2)
qed

lemma percentSaved_160_119: "percentSaved 160 119 = ''25.62''"
  by (simp add: percentSaved_def percentNumber_160_119 dvalue_def toFixed2_def hundredths_def decimal.simps
      digit_def Let_def)

lemma rasterFile_pic:
  "rasterFile tools quiet \<lparr>formats = [''webp''], useImageMagick = True\<rparr>
     \<lparr>originalname = ''pic.jpg'', path = ''files-3.jpg''\<rparr> [(''files-3.jpg'', 100)] =
   ([Success ''pic.jpg'' 100
       [\<lparr>fmt = ''webp'', filename = ''pic.webp'', bytes = 150, savings = ''-50.00''\<rparr>] None],
    [(''pic.webp'', 150)])"
  by (simp add: rasterFile_def stat_def quiet_def tools_def Let_def getUniqueFilename_def
      getUniqueFilename_loop.simps access_def baseFilename_def basename_def extname_def
      writeFile_def remove_entry_def percentSaved_100_150
      safeUnlink_service_def safeUnlink_service_loop.simps unlink_def)

text \<open>
  A JPEG of 100 bytes that sharp re-encodes to 150 bytes is reported with savings
  \<open>-50.00\<close>.
\<close>

theorem savings_reported_counterexample:
  "processImages tools quiet \<lparr>formats = [''webp''], useImageMagick = True\<rparr>
     [\<lparr>originalname = ''pic.jpg'', path = ''files-3.jpg''\<rparr>] [(''files-3.jpg'', 100)] =
   ([Success ''pic.jpg'' 100
       [\<lparr>fmt = ''webp'', filename = ''pic.webp'', bytes = 150, savings = ''-50.00''\<rparr>] None],
    [(''pic.webp'', 150)])"
  by (simp add: processImages_def svgPhase_def svgFiles_def imageMagickFiles_def
      rasterFiles_def rasterFile_pic)

theorem savings_reported_witness:
  "Success ''logo.svg'' 1000
     [\<lparr>fmt = ''webp'', filename = ''logo.webp'', bytes = 5000, savings = ''0.00''\<rparr>] None
     \<in> set (fst (svgToRaster tools quiet \<lparr>formats = [''webp'', ''svg''], useImageMagick = True\<rparr>
                \<lparr>originalname = ''logo.svg'', path = ''files-1.svg''\<rparr> [(''files-1.svg'', 1000)])) \<and>
   list_all (\<lambda>a. savings a = (if 1000 > bytes a then percentSaved 1000 (bytes a) else ''0.00''))
     [\<lparr>fmt = ''webp'', filename = ''logo.webp'', bytes = 5000, savings = ''0.00''\<rparr>] \<and>
   hd (percentSaved 1000 5000) = CHR ''-''"
proof -
  let ?art = "\<lparr>fmt = ''webp'', filename = ''logo.webp'', bytes = 5000, savings = ''0.00''\<rparr>"
  note t = savings_reported[of "''logo.svg''" 1000 "[?art]" None
      tools quiet "\<lparr>formats = [''webp'', ''svg''], useImageMagick = True\<rparr>"
      "\<lparr>originalname = ''logo.svg'', path = ''files-1.svg''\<rparr>" "[(''files-1.svg'', 1000)]"
      5000]
  have mem: "Success ''logo.svg'' 1000 [?art] None
     \<in> set (fst (svgToRaster tools quiet \<lparr>formats = [''webp'', ''svg''], useImageMagick = True\<rparr>
                \<lparr>originalname = ''logo.svg'', path = ''files-1.svg''\<rparr> [(''files-1.svg'', 1000)]))"
    by (simp add: svgToRaster_logo)
  have a: "(0::nat) < 1000 \<and> (1000::nat) < 5000" by simp
  from t a have neg: "hd (percentSaved 1000 5000) = CHR ''-''" by blast
  from t mem
  have "list_all (\<lambda>a. savings a = (if 1000 > bytes a then percentSaved 1000 (bytes a) else ''0.00''))
     [?art]" by blast
  with mem neg show ?thesis by blast
qed

end
